theory Spec2Isabelle
  imports Complex_Main "HOL-Library.Char_ord" "HOL-Library.List_Lexorder"
    "HOL-Library.Product_Lexorder"
begin

section \<open>Data model (types.ts)\<close>

text \<open>
  JavaScript strings are modelled as \<^typ>\<open>string\<close>, one \<^typ>\<open>char\<close> per UTF-16 code
  unit (code units above 255 are not represented), so \<^const>\<open>length\<close> is the
  \<^verbatim>\<open>.length\<close> of the source.
\<close>

datatype PathType = Directory | File

record DiscoveredPath =
  "alias" :: string
  path :: string
  relativePath :: string
  type :: PathType
  depth :: nat

datatype IssueType = error | warning | info

record ValidationIssue =
  issue_type :: IssueType
  message :: string
  issue_path :: "string option"
  suggestion :: "string option"

record ValidationResult =
  isValid :: bool
  issues :: "ValidationIssue list"

text \<open>
  \<^verbatim>\<open>PathMapping\<close> is an object with string values; it is kept as the list of its
  properties in enumeration order (see \<open>obj_set\<close> below).
\<close>

type_synonym PathMapping = "(string \<times> string) list"

record PathMapperResult =
  mappings :: PathMapping
  discovered :: "DiscoveredPath list"
  suggestions :: "string list"
  warnings :: "string list"
  errors :: "string list"

section \<open>Values of the runtime\<close>

text \<open>
  Values thrown by the code: \<^verbatim>\<open>new Error(msg)\<close> and the runtime's TypeError. The
  template \<^verbatim>\<open>${error}\<close> prints them with their name.
\<close>

datatype js_error = Error string | TypeError string

fun error_string :: "js_error \<Rightarrow> string" where
  "error_string (Error m) = ''Error: '' @ m"
| "error_string (TypeError m) = ''TypeError: '' @ m"

text \<open>
  What \<^verbatim>\<open>JSON.parse\<close> returns and \<^verbatim>\<open>JSON.stringify\<close> writes. \<open>JNum\<close> holds a
  finite number. \<open>JObj\<close> lists the own properties of an object in the order in which
  the runtime enumerates them; a property read finds a key with \<^const>\<open>map_of\<close>.
\<close>

datatype json =
  JNull | JBool bool | JNum rat | JStr string | JArr "json list" | JObj "(string \<times> json) list"

text \<open>
  Truthiness of the result of a property read; \<open>None\<close> is \<^verbatim>\<open>undefined\<close>.
\<close>

fun truthy :: "json option \<Rightarrow> bool" where
  "truthy None = False"
| "truthy (Some JNull) = False"
| "truthy (Some (JBool b)) = b"
| "truthy (Some (JNum r)) = (r \<noteq> 0)"
| "truthy (Some (JStr s)) = (s \<noteq> [])"
| "truthy (Some (JArr xs)) = True"
| "truthy (Some (JObj ps)) = True"

subsection \<open>Characters\<close>

definition is_digit :: "char \<Rightarrow> bool" where
  "is_digit c \<longleftrightarrow> CHR ''0'' \<le> c \<and> c \<le> CHR ''9''"

definition is_letter :: "char \<Rightarrow> bool" where \<comment> \<open>\<^verbatim>\<open>[a-zA-Z]\<close>\<close>
  "is_letter c \<longleftrightarrow> (CHR ''a'' \<le> c \<and> c \<le> CHR ''z'') \<or> (CHR ''A'' \<le> c \<and> c \<le> CHR ''Z'')"

definition is_alnum :: "char \<Rightarrow> bool" where \<comment> \<open>\<^verbatim>\<open>[a-zA-Z0-9]\<close>\<close>
  "is_alnum c \<longleftrightarrow> is_letter c \<or> is_digit c"

definition is_word :: "char \<Rightarrow> bool" where \<comment> \<open>the class \<^verbatim>\<open>\w\<close>\<close>
  "is_word c \<longleftrightarrow> is_alnum c \<or> c = CHR ''_''"

definition is_space :: "char \<Rightarrow> bool" where \<comment> \<open>the class \<^verbatim>\<open>\s\<close>, below code unit 256\<close>
  "is_space c \<longleftrightarrow>
     c \<in> set [CHR 0x09, CHR 0x0A, CHR 0x0B, CHR 0x0C, CHR 0x0D, CHR 0x20, CHR 0xA0]"

text \<open>
  \<^verbatim>\<open>toUpperCase\<close> and \<^verbatim>\<open>toLowerCase\<close> on one character; the code applies them to
  characters of the class \<^verbatim>\<open>\w\<close> only, where they change the ASCII letters.
\<close>

definition toUpperCase :: "char \<Rightarrow> char" where
  "toUpperCase c =
     (case map_of (zip ''abcdefghijklmnopqrstuvwxyz'' ''ABCDEFGHIJKLMNOPQRSTUVWXYZ'') c of
        Some u \<Rightarrow> u | None \<Rightarrow> c)"

definition toLowerCase :: "char \<Rightarrow> char" where
  "toLowerCase c =
     (case map_of (zip ''ABCDEFGHIJKLMNOPQRSTUVWXYZ'' ''abcdefghijklmnopqrstuvwxyz'') c of
        Some l \<Rightarrow> l | None \<Rightarrow> c)"

subsection \<open>Objects\<close>

text \<open>
  The runtime enumerates the own string keys of an object with the array indices first,
  in ascending numeric order, then the other keys in the order of their creation. An
  array index is the canonical decimal numeral of a number below \<open>2\<^sup>3\<^sup>2 - 1\<close>.
\<close>

definition digit_char :: "nat \<Rightarrow> char" where
  "digit_char d = ''0123456789'' ! d"

fun show_nat :: "nat \<Rightarrow> string" where
  "show_nat n =
     (if n < 10 then [digit_char n] else show_nat (n div 10) @ [digit_char (n mod 10)])"

definition decimal :: "string \<Rightarrow> int" where
  "decimal k = foldl (\<lambda>n c. 10 * n + (of_char c - 48)) 0 k"

definition array_index :: "string \<Rightarrow> int option" where
  "array_index k =
     (if k \<noteq> [] \<and> list_all is_digit k \<and> (k = ''0'' \<or> hd k \<noteq> CHR ''0'') \<and>
         decimal k < 4294967295
      then Some (decimal k) else None)"

definition key_before :: "string \<Rightarrow> string \<Rightarrow> bool" where
  "key_before k k' =
     (case array_index k of
        None \<Rightarrow> False
      | Some n \<Rightarrow> (case array_index k' of None \<Rightarrow> True | Some m \<Rightarrow> n < m))"

text \<open>
  The assignment \<^verbatim>\<open>obj[k] = v\<close>: an existing property keeps its place, a new one is
  created at its place in the enumeration order.
\<close>

fun obj_set :: "string \<Rightarrow> 'a \<Rightarrow> (string \<times> 'a) list \<Rightarrow> (string \<times> 'a) list" where
  "obj_set k v [] = [(k, v)]"
| "obj_set k v ((k', v') # ps) =
     (if k = k' then (k, v) # ps
      else if key_before k k' then (k, v) # (k', v') # ps
      else (k', v') # obj_set k v ps)"

text \<open>
  A property list is the enumeration of an object when its keys are distinct and in
  enumeration order.
\<close>

definition wf_obj :: "(string \<times> 'a) list \<Rightarrow> bool" where
  "wf_obj ps = sorted_wrt (\<lambda>p q. fst p \<noteq> fst q \<and> \<not> key_before (fst q) (fst p)) ps"

text \<open>
  The own enumerable properties of a truthy value, as \<^verbatim>\<open>Object.entries\<close> and the
  spread \<^verbatim>\<open>{...v}\<close> read them: the elements of an array and the characters of a
  string under their indices, none for a boolean or a number.
\<close>

fun entries :: "json \<Rightarrow> (string \<times> json) list" where
  "entries (JObj ps) = ps"
| "entries (JArr xs) = zip (map show_nat [0..<length xs]) xs"
| "entries (JStr s) = zip (map show_nat [0..<length s]) (map (\<lambda>c. JStr [c]) s)"
| "entries v = []"

text \<open>\<^verbatim>\<open>{...a, ...b}\<close>: a fresh object that receives the properties of \<open>a\<close>, then of \<open>b\<close>.\<close>

definition assign_all :: "(string \<times> 'a) list \<Rightarrow> (string \<times> 'a) list \<Rightarrow> (string \<times> 'a) list" where
  "assign_all target src = fold (\<lambda>(k, v). obj_set k v) src target"

definition spread2 :: "(string \<times> 'a) list \<Rightarrow> (string \<times> 'a) list \<Rightarrow> (string \<times> 'a) list" where
  "spread2 a b = assign_all (assign_all [] a) b"

section \<open>The host: Node's path module, string collation, the file system\<close>

text \<open>
  The functions of Node's \<^verbatim>\<open>path\<close> module that the code calls,
  \<^verbatim>\<open>process.cwd\<close> and \<^verbatim>\<open>String.prototype.localeCompare\<close> belong to the runtime,
  not to the repository. \<^verbatim>\<open>path.resolve\<close> and \<^verbatim>\<open>path.relative\<close> complete an argument
  that is not absolute with the working directory, which they read with
  \<^verbatim>\<open>process.cwd()\<close>; that call throws when the directory cannot be read. This use of
  the working directory is written out below (\<open>path_resolve\<close>, \<open>path_resolve2\<close>,
  \<open>path_relative\<close>); what the functions compute from absolute paths is a parameter:
  \<^item> \<open>cwd\<close> is what \<^verbatim>\<open>process.cwd()\<close> returns or throws;
  \<^item> \<open>isAbsolute p\<close> holds when \<^verbatim>\<open>path.resolve\<close> completes \<open>p\<close> without the working
    directory (on POSIX, \<^verbatim>\<open>path.isAbsolute(p)\<close>);
  \<^item> \<open>resolve a b\<close> is \<^verbatim>\<open>path.resolve(a, b)\<close> for an absolute \<open>a\<close>, so that
    \<open>resolve a []\<close> is the normal form of \<open>a\<close>;
  \<^item> \<open>relative f t\<close> is \<^verbatim>\<open>path.relative(f, t)\<close> for two resolved paths;
  \<^item> \<open>parse\<close> gives the two fields of \<^verbatim>\<open>path.parse\<close> the code reads.
\<close>

record ParsedPath =
  name :: string
  ext :: string

record Host =
  sep :: char
  cwd :: "js_error + string"
  isAbsolute :: "string \<Rightarrow> bool"
  resolve :: "string \<Rightarrow> string \<Rightarrow> string"
  relative :: "string \<Rightarrow> string \<Rightarrow> string"
  parse :: "string \<Rightarrow> ParsedPath"
  basename :: "string \<Rightarrow> string"
  join :: "string \<Rightarrow> string \<Rightarrow> string"
  localeCompare :: "string \<Rightarrow> string \<Rightarrow> int"

text \<open>\<^verbatim>\<open>path.resolve(p)\<close>: the working directory is read when \<open>p\<close> is not absolute.\<close>

definition path_resolve :: "Host \<Rightarrow> string \<Rightarrow> js_error + string" where
  "path_resolve H p =
     (if isAbsolute H p then Inr (resolve H p [])
      else (case cwd H of Inl e \<Rightarrow> Inl e | Inr d \<Rightarrow> Inr (resolve H d p)))"

text \<open>
  \<^verbatim>\<open>path.resolve(a, b)\<close>: the arguments are taken from the right until the path is
  absolute, and the working directory is read when neither is.
\<close>

definition path_resolve2 :: "Host \<Rightarrow> string \<Rightarrow> string \<Rightarrow> js_error + string" where
  "path_resolve2 H a b =
     (if isAbsolute H b then Inr (resolve H b [])
      else (case path_resolve H a of Inl e \<Rightarrow> Inl e | Inr a' \<Rightarrow> Inr (resolve H a' b)))"

text \<open>
  \<^verbatim>\<open>path.relative(from, to)\<close>: equal arguments give the empty string at once;
  otherwise both are resolved, \<open>from\<close> first.
\<close>

definition path_relative :: "Host \<Rightarrow> string \<Rightarrow> string \<Rightarrow> js_error + string" where
  "path_relative H from to =
     (if from = to then Inr []
      else (case path_resolve H from of
              Inl e \<Rightarrow> Inl e
            | Inr f \<Rightarrow>
                (case path_resolve H to of
                   Inl e \<Rightarrow> Inl e
                 | Inr t \<Rightarrow> Inr (relative H f t))))"

text \<open>
  The file system as the code observes it during one operation: the results of the two
  listings (for the mapper's root, patterns and depth), of the existence checks, and of
  reading and writing a JSON file. \<^verbatim>\<open>getDirectoryStructure\<close> catches every failure
  and returns a list; \<^verbatim>\<open>getTypeScriptFiles\<close> may reject.
\<close>

record FileSystem =
  getTypeScriptFiles :: "js_error + string list"
  getDirectoryStructure :: "string list"
  access :: "string \<Rightarrow> bool"
  existsSync :: "string \<Rightarrow> bool"
  readJson :: "string \<Rightarrow> js_error + json"
  writeFile :: "string \<Rightarrow> json \<Rightarrow> js_error option"

section \<open>FileUtils (src/utils/fileUtils.ts)\<close>

definition pathExists :: "FileSystem \<Rightarrow> string \<Rightarrow> bool" where
  "pathExists F filePath = access F filePath"

text \<open>
  The three \<^verbatim>\<open>replace\<close> calls of \<^verbatim>\<open>generateAlias\<close>.
  \<^verbatim>\<open>.replace(/[^a-zA-Z0-9]/g, ' ')\<close>:
\<close>

definition replace_non_alnum :: "string \<Rightarrow> string" where
  "replace_non_alnum s = map (\<lambda>c. if is_alnum c then c else CHR '' '') s"

text \<open>
  \<^verbatim>\<open>.replace(/\s+(\w)/g, (_, char) => char.toUpperCase())\<close>: \<open>pend\<close> is the run of
  white space read so far; it is dropped when a word character follows it and kept
  otherwise.
\<close>

fun replace_space_word :: "string \<Rightarrow> string \<Rightarrow> string" where
  "replace_space_word pend [] = pend"
| "replace_space_word pend (c # cs) =
     (if is_space c then replace_space_word (pend @ [c]) cs
      else if pend \<noteq> [] \<and> is_word c then toUpperCase c # replace_space_word [] cs
      else pend @ c # replace_space_word [] cs)"

text \<open>\<^verbatim>\<open>.replace(/^(\w)/, (_, char) => char.toLowerCase())\<close>:\<close>

fun lower_first :: "string \<Rightarrow> string" where
  "lower_first [] = []"
| "lower_first (c # cs) = (if is_word c then toLowerCase c # cs else c # cs)"

text \<open>\<^verbatim>\<open>/^[a-zA-Z]/.test(alias)\<close>:\<close>

fun starts_with_letter :: "string \<Rightarrow> bool" where
  "starts_with_letter [] = False"
| "starts_with_letter (c # cs) = is_letter c"

text \<open>
  \<open>generateAlias\<close> has no \<^verbatim>\<open>try\<close>: a failure of \<^verbatim>\<open>path.relative\<close> leaves it as an
  exception.
\<close>

definition generateAlias :: "Host \<Rightarrow> string \<Rightarrow> string \<Rightarrow> js_error + string" where
  "generateAlias H filePath rootDir =
     (case path_relative H rootDir filePath of
        Inl e \<Rightarrow> Inl e
      | Inr relPath \<Rightarrow>
          (let withoutExt = parse H relPath;
               a0 = lower_first (replace_space_word [] (replace_non_alnum (name withoutExt)));
               a1 = (if ext withoutExt = [] then basename H filePath else a0)
           in Inr (if \<not> starts_with_letter a1 then CHR ''p'' # a1 else a1)))"

definition validatePathMapping ::
    "Host \<Rightarrow> FileSystem \<Rightarrow> string \<Rightarrow> string \<Rightarrow> js_error + bool" where
  "validatePathMapping H F mapping rootDir =
     (case path_resolve2 H rootDir mapping of
        Inl e \<Rightarrow> Inl e
      | Inr fullPath \<Rightarrow> Inr (existsSync F fullPath))"

definition readTsConfig :: "FileSystem \<Rightarrow> string \<Rightarrow> js_error + json" where
  "readTsConfig F configPath =
     (case readJson F configPath of
        Inl e \<Rightarrow> Inl (Error (''Failed to read tsconfig.json: '' @ error_string e))
      | Inr config \<Rightarrow> Inr config)"

text \<open>The result is the document written, or the failure.\<close>

definition writeTsConfig :: "FileSystem \<Rightarrow> string \<Rightarrow> json \<Rightarrow> js_error + json" where
  "writeTsConfig F configPath config =
     (case writeFile F configPath config of
        Some e \<Rightarrow> Inl (Error (''Failed to write tsconfig.json: '' @ error_string e))
      | None \<Rightarrow> Inr config)"


section \<open>PathMapper (src/PathMapper.ts)\<close>

subsection \<open>resolveAliasConflict\<close>

text \<open>
  The callback of both \<^verbatim>\<open>reduce\<close> calls:
  \<^verbatim>\<open>(shortest, current) => current.relativePath.length < shortest.relativePath.length ? current : shortest\<close>.
\<close>

definition shorter :: "DiscoveredPath \<Rightarrow> DiscoveredPath \<Rightarrow> DiscoveredPath" where
  "shorter shortest current =
     (if length (relativePath current) < length (relativePath shortest) then current
      else shortest)"

text \<open>
  \<^verbatim>\<open>Array.prototype.reduce\<close> without an initial value, on a non-empty array: the first
  element is the accumulator and the callback runs over the rest, left to right.
\<close>

fun reduce1 :: "('a \<Rightarrow> 'a \<Rightarrow> 'a) \<Rightarrow> 'a \<Rightarrow> 'a list \<Rightarrow> 'a" where
  "reduce1 f acc [] = acc"
| "reduce1 f acc (x # xs) = reduce1 f (f acc x) xs"

text \<open>
  The result object \<^verbatim>\<open>{ alias, path }\<close> is the pair \<open>(alias, path)\<close>. Every item is a
  file or a directory, so the fallback \<^verbatim>\<open>items[0]\<close> is reached only for an empty
  array, where reading \<^verbatim>\<open>.alias\<close> of \<^verbatim>\<open>undefined\<close> throws.
\<close>

definition resolveAliasConflict ::
    "string \<Rightarrow> DiscoveredPath list \<Rightarrow> js_error + (string \<times> string)" where
  "resolveAliasConflict a items =
     (let files = filter (\<lambda>item. type item = File) items;
          directories = filter (\<lambda>item. type item = Directory) items
      in case files of
           f # fs \<Rightarrow>
             (let shortestFile = reduce1 shorter f fs
              in Inr (alias shortestFile, relativePath shortestFile))
         | [] \<Rightarrow>
             (case directories of
                d # ds \<Rightarrow>
                  (let shortestDir = reduce1 shorter d ds
                   in Inr (alias shortestDir, relativePath shortestDir))
              | [] \<Rightarrow>
                  (case items of
                     [] \<Rightarrow> Inl (TypeError ''Cannot read properties of undefined (reading alias)'')
                   | i # _ \<Rightarrow> Inr (alias i, relativePath i))))"

subsection \<open>discoverPaths\<close>

text \<open>\<^verbatim>\<open>String.prototype.split\<close> with a separator of one character.\<close>

fun split_on :: "char \<Rightarrow> string \<Rightarrow> string list" where
  "split_on c [] = [[]]"
| "split_on c (x # xs) =
     (if x = c then [] # split_on c xs
      else (case split_on c xs of p # ps \<Rightarrow> (x # p) # ps | [] \<Rightarrow> [[x]]))"

definition calculateDepth :: "Host \<Rightarrow> string \<Rightarrow> nat" where
  "calculateDepth H relPath = length (split_on (sep H) relPath) - 1"

text \<open>The body of the two loops: the record pushed for one file or directory.\<close>

definition discover_entry ::
    "Host \<Rightarrow> string \<Rightarrow> PathType \<Rightarrow> string \<Rightarrow> js_error + DiscoveredPath" where
  "discover_entry H rootDir t p =
     (case path_relative H rootDir p of
        Inl e \<Rightarrow> Inl e
      | Inr relPath \<Rightarrow>
          (case generateAlias H p rootDir of
             Inl e \<Rightarrow> Inl e
           | Inr a \<Rightarrow>
               Inr \<lparr>alias = a, path = p, relativePath = relPath,
                    type = t, depth = calculateDepth H relPath\<rparr>))"

text \<open>A loop that pushes one result per element and is left by the first exception.\<close>

fun map_result :: "('a \<Rightarrow> 'e + 'b) \<Rightarrow> 'a list \<Rightarrow> 'e + 'b list" where
  "map_result f [] = Inr []"
| "map_result f (x # xs) =
     (case f x of
        Inl e \<Rightarrow> Inl e
      | Inr y \<Rightarrow> (case map_result f xs of Inl e \<Rightarrow> Inl e | Inr ys \<Rightarrow> Inr (y # ys)))"

text \<open>The comparison function handed to \<^verbatim>\<open>sort\<close>.\<close>

definition compare_discovered :: "Host \<Rightarrow> DiscoveredPath \<Rightarrow> DiscoveredPath \<Rightarrow> int" where
  "compare_discovered H a b =
     (if depth a \<noteq> depth b then int (depth a) - int (depth b)
      else localeCompare H (alias a) (alias b))"

text \<open>
  \<^verbatim>\<open>Array.prototype.sort\<close> is stable, and with a consistent comparison function its
  result is the one stable arrangement in which no element compares greater than a later
  one: the arrangement that insertion from the right builds. A comparison function is
  consistent when it is a total preorder with opposite signs for swapped arguments.
\<close>

fun insert_sorted :: "('a \<Rightarrow> 'a \<Rightarrow> int) \<Rightarrow> 'a \<Rightarrow> 'a list \<Rightarrow> 'a list" where
  "insert_sorted cmp x [] = [x]"
| "insert_sorted cmp x (y # ys) =
     (if cmp x y \<le> 0 then x # y # ys else y # insert_sorted cmp x ys)"

definition array_sort :: "('a \<Rightarrow> 'a \<Rightarrow> int) \<Rightarrow> 'a list \<Rightarrow> 'a list" where
  "array_sort cmp xs = foldr (insert_sorted cmp) xs []"

definition consistent_comparator :: "('a \<Rightarrow> 'a \<Rightarrow> int) \<Rightarrow> bool" where
  "consistent_comparator cmp \<longleftrightarrow>
     (\<forall>a. cmp a a = 0) \<and>
     (\<forall>a b. sgn (cmp b a) = - sgn (cmp a b)) \<and>
     (\<forall>a b c. cmp a b \<le> 0 \<longrightarrow> cmp b c \<le> 0 \<longrightarrow> cmp a c \<le> 0)"

text \<open>
  The order that the specification states for the output: ascending by depth, then
  lexicographically by alias, strings compared character by character by code unit.
\<close>

definition depth_then_alias_lex :: "DiscoveredPath \<Rightarrow> DiscoveredPath \<Rightarrow> bool" where
  "depth_then_alias_lex r1 r2 \<longleftrightarrow>
     depth r1 < depth r2 \<or> (depth r1 = depth r2 \<and> alias r1 \<le> alias r2)"

text \<open>
  A failure inside the \<^verbatim>\<open>try\<close> block is rethrown as
  \<^verbatim>\<open>Error(`Failed to discover paths: ${error}`)\<close>.
\<close>

definition discover_failed :: "js_error \<Rightarrow> js_error + DiscoveredPath list" where
  "discover_failed e = Inl (Error (''Failed to discover paths: '' @ error_string e))"

definition discoverPaths :: "Host \<Rightarrow> FileSystem \<Rightarrow> string \<Rightarrow> js_error + DiscoveredPath list" where
  "discoverPaths H F rootDir =
     (case getTypeScriptFiles F of
        Inl e \<Rightarrow> discover_failed e
      | Inr tsFiles \<Rightarrow>
          (let directories = getDirectoryStructure F
           in case map_result (discover_entry H rootDir File) tsFiles of
                Inl e \<Rightarrow> discover_failed e
              | Inr files \<Rightarrow>
                  (case map_result (discover_entry H rootDir Directory) directories of
                     Inl e \<Rightarrow> discover_failed e
                   | Inr dirs \<Rightarrow> Inr (array_sort (compare_discovered H) (files @ dirs)))))"

subsection \<open>generateMappings\<close>

text \<open>
  \<open>aliasGroups\<close> is a \<^verbatim>\<open>Map\<close>: its keys are visited in the order of their first
  insertion, and \<^verbatim>\<open>push\<close> appends to the array stored under the key.
\<close>

fun groups_push ::
    "DiscoveredPath \<Rightarrow> (string \<times> DiscoveredPath list) list \<Rightarrow> (string \<times> DiscoveredPath list) list"
where
  "groups_push item [] = [(alias item, [item])]"
| "groups_push item ((k, items) # gs) =
     (if k = alias item then (k, items @ [item]) # gs else (k, items) # groups_push item gs)"

definition aliasGroups :: "DiscoveredPath list \<Rightarrow> (string \<times> DiscoveredPath list) list" where
  "aliasGroups ds = fold groups_push ds []"

text \<open>Every group is non-empty and holds records of the alias it is stored under.\<close>

definition groups_ok :: "(string \<times> DiscoveredPath list) list \<Rightarrow> bool" where
  "groups_ok gs \<longleftrightarrow> (\<forall>(k, items)\<in>set gs. items \<noteq> [] \<and> (\<forall>i\<in>set items. alias i = k))"

text \<open>
  The loop over the groups, on the result under construction. A group of one item is
  mapped directly; any other group goes through \<open>resolveAliasConflict\<close>, whose failure
  would reject the whole operation.
\<close>

fun process_groups ::
    "(string \<times> DiscoveredPath list) list \<Rightarrow> PathMapperResult \<Rightarrow> js_error + PathMapperResult"
where
  "process_groups [] r = Inr r"
| "process_groups ((a, items) # gs) r =
     (case items of
        [item] \<Rightarrow>
          process_groups gs
            (r\<lparr>mappings := obj_set (CHR ''@'' # a) (relativePath item) (mappings r),
               suggestions :=
                 (if depth item > 2
                  then suggestions r @
                    [''Consider using a shorter alias for deep path: '' @ relativePath item]
                  else suggestions r)\<rparr>)
      | _ \<Rightarrow>
          (case resolveAliasConflict a items of
             Inl e \<Rightarrow> Inl e
           | Inr (ra, rp) \<Rightarrow>
               process_groups gs
                 (r\<lparr>mappings := obj_set (CHR ''@'' # ra) rp (mappings r),
                    warnings := warnings r @
                      [''Alias conflict resolved: '' @ a @ '' -> '' @ ra @ '' for '' @ rp]\<rparr>)))"

definition generateMappings :: "Host \<Rightarrow> FileSystem \<Rightarrow> string \<Rightarrow> js_error + PathMapperResult" where
  "generateMappings H F rootDir =
     (case discoverPaths H F rootDir of
        Inl e \<Rightarrow> Inl e
      | Inr ds \<Rightarrow>
          process_groups (aliasGroups ds)
            \<lparr>mappings = [], discovered = ds, suggestions = [], warnings = [], errors = []\<rparr>)"

subsection \<open>validateExistingMappings\<close>

text \<open>The loop of \<open>findBetterMapping\<close>, for the resolved target; \<open>None\<close> is \<^verbatim>\<open>null\<close>.\<close>

fun find_better ::
    "Host \<Rightarrow> string \<Rightarrow> string \<Rightarrow> string \<Rightarrow> DiscoveredPath list \<Rightarrow> js_error + string option"
where
  "find_better H rootDir targetPath currentPath [] = Inr None"
| "find_better H rootDir targetPath currentPath (item # rest) =
     (case path_resolve2 H rootDir (relativePath item) of
        Inl e \<Rightarrow> Inl e
      | Inr itemFullPath \<Rightarrow>
          (if itemFullPath = targetPath \<and> length (relativePath item) < length currentPath
           then Inr (Some (relativePath item))
           else find_better H rootDir targetPath currentPath rest))"

definition findBetterMapping ::
    "Host \<Rightarrow> string \<Rightarrow> string \<Rightarrow> string \<Rightarrow> DiscoveredPath list \<Rightarrow> js_error + string option"
where
  "findBetterMapping H rootDir a currentPath ds =
     (case path_resolve2 H rootDir currentPath of
        Inl e \<Rightarrow> Inl e
      | Inr targetPath \<Rightarrow> find_better H rootDir targetPath currentPath ds)"

text \<open>
  \<^verbatim>\<open>config.compilerOptions?.paths || {}\<close>, for a \<open>config\<close> that is not \<^verbatim>\<open>null\<close>.
  Only an object has a property of the names read here.
\<close>

fun get_prop :: "string \<Rightarrow> json \<Rightarrow> json option" where
  "get_prop k (JObj ps) = map_of ps k"
| "get_prop k v = None"

definition path_mappings_of :: "json \<Rightarrow> json" where
  "path_mappings_of config =
     (let paths = (case get_prop ''compilerOptions'' config of
                     None \<Rightarrow> None
                   | Some JNull \<Rightarrow> None
                   | Some co \<Rightarrow> get_prop ''paths'' co)
      in case paths of
           Some v \<Rightarrow> (if truthy (Some v) then v else JObj [])
         | None \<Rightarrow> JObj [])"

text \<open>\<^verbatim>\<open>Array.isArray(mapping) ? mapping[0] : mapping\<close>; \<open>None\<close> is \<^verbatim>\<open>undefined\<close>.\<close>

fun mapping_path :: "json \<Rightarrow> json option" where
  "mapping_path (JArr []) = None"
| "mapping_path (JArr (x # xs)) = Some x"
| "mapping_path v = Some v"

text \<open>
  The loop over \<^verbatim>\<open>Object.entries(pathMappings)\<close>. The result is the issues pushed so
  far and, when an exception left the loop, that exception: \<^verbatim>\<open>path.resolve\<close> throws a
  TypeError for an argument that is not a string and may fail to read the working
  directory, and \<open>discoverPaths\<close> may reject.
\<close>

fun validate_entries ::
    "Host \<Rightarrow> FileSystem \<Rightarrow> string \<Rightarrow> (string \<times> json) list \<Rightarrow> ValidationIssue list \<Rightarrow>
     ValidationIssue list \<times> js_error option" where
  "validate_entries H F rootDir [] acc = (acc, None)"
| "validate_entries H F rootDir ((a, mapping) # rest) acc =
     (case mapping_path mapping of
        Some (JStr mappingPath) \<Rightarrow>
          (case validatePathMapping H F mappingPath rootDir of
             Inl e \<Rightarrow> (acc, Some e)
           | Inr False \<Rightarrow>
               validate_entries H F rootDir rest
                 (acc @ [\<lparr>issue_type = error,
                           message = ''Invalid path mapping: '' @ a @ '' -> '' @ mappingPath,
                           issue_path = Some mappingPath,
                           suggestion = Some ''Remove or fix this mapping''\<rparr>])
           | Inr True \<Rightarrow>
               (case discoverPaths H F rootDir of
                  Inl e \<Rightarrow> (acc, Some e)
                | Inr ds \<Rightarrow>
                    (case findBetterMapping H rootDir a mappingPath ds of
                       Inl e \<Rightarrow> (acc, Some e)
                     | Inr None \<Rightarrow> validate_entries H F rootDir rest acc
                     | Inr (Some betterMapping) \<Rightarrow>
                         (if betterMapping = [] then validate_entries H F rootDir rest acc
                          else
                            validate_entries H F rootDir rest
                              (acc @ [\<lparr>issue_type = info,
                                        message = ''Consider using shorter path: '' @ betterMapping,
                                        issue_path = Some mappingPath,
                                        suggestion = Some betterMapping\<rparr>])))))
      | _ \<Rightarrow> (acc, Some (TypeError ''The paths[1] argument must be of type string'')))"

text \<open>The \<^verbatim>\<open>catch\<close> block.\<close>

definition validation_failed ::
    "string \<Rightarrow> ValidationIssue list \<Rightarrow> js_error \<Rightarrow> ValidationResult" where
  "validation_failed configPath acc e =
     \<lparr>isValid = False,
      issues = acc @ [\<lparr>issue_type = error,
                        message = ''Failed to validate mappings: '' @ error_string e,
                        issue_path = Some configPath, suggestion = None\<rparr>]\<rparr>"

text \<open>\<^verbatim>\<open>tsConfigPath || path.join(this.rootDir, "tsconfig.json")\<close>: an absent or empty
  argument gives the default.\<close>

definition config_path :: "Host \<Rightarrow> string \<Rightarrow> string option \<Rightarrow> string" where
  "config_path H rootDir tsConfigPath =
     (case tsConfigPath of
        Some p \<Rightarrow> (if p \<noteq> [] then p else join H rootDir ''tsconfig.json'')
      | None \<Rightarrow> join H rootDir ''tsconfig.json'')"

definition validateExistingMappings ::
    "Host \<Rightarrow> FileSystem \<Rightarrow> string \<Rightarrow> string option \<Rightarrow> ValidationResult" where
  "validateExistingMappings H F rootDir tsConfigPath =
     (let configPath = config_path H rootDir tsConfigPath
      in if \<not> pathExists F configPath then
           \<lparr>isValid = False,
            issues = [\<lparr>issue_type = error, message = ''tsconfig.json not found'',
                       issue_path = Some configPath, suggestion = None\<rparr>]\<rparr>
         else
           (case readTsConfig F configPath of
              Inl e \<Rightarrow> validation_failed configPath [] e
            | Inr JNull \<Rightarrow>
                validation_failed configPath []
                  (TypeError ''Cannot read properties of null (reading compilerOptions)'')
            | Inr config \<Rightarrow>
                (case validate_entries H F rootDir (entries (path_mappings_of config)) [] of
                   (acc, Some e) \<Rightarrow> validation_failed configPath acc e
                 | (acc, None) \<Rightarrow>
                     \<lparr>isValid = (length (filter (\<lambda>issue. issue_type issue = error) acc) = 0),
                      issues = acc\<rparr>)))"

subsection \<open>updateTsConfig\<close>

text \<open>The configuration synthesised when the file does not exist.\<close>

definition default_config :: json where
  "default_config =
     JObj [(''compilerOptions'',
            JObj [(''target'', JStr ''ES2020''), (''module'', JStr ''commonjs''),
                  (''strict'', JBool True), (''esModuleInterop'', JBool True),
                  (''skipLibCheck'', JBool True),
                  (''forceConsistentCasingInFileNames'', JBool True)])]"

definition mapping_json :: "PathMapping \<Rightarrow> json" where
  "mapping_json m = JObj (map (\<lambda>(k, v). (k, JStr v)) m)"

text \<open>
  The statements between reading and writing the document. The result is the document
  that \<^verbatim>\<open>JSON.stringify\<close> writes. The source is module code, hence strict: creating
  a property on a number, a string or a boolean throws. A property created on an array
  under a name that is not an index exists in memory only and is not written.
\<close>

definition ensure_compilerOptions :: "(string \<times> json) list \<Rightarrow> (string \<times> json) list" where
  \<comment> \<open>\<^verbatim>\<open>if (!config.compilerOptions) config.compilerOptions = {}\<close>\<close>
  "ensure_compilerOptions ps =
     (if \<not> truthy (map_of ps ''compilerOptions'')
      then obj_set ''compilerOptions'' (JObj []) ps else ps)"

definition updated_paths :: "PathMapping \<Rightarrow> bool \<Rightarrow> json option \<Rightarrow> (string \<times> json) list" where
  \<comment> \<open>the value assigned to \<^verbatim>\<open>config.compilerOptions.paths\<close>; \<open>old\<close> is its value before\<close>
  "updated_paths newMappings merge old =
     (case old of
        Some v \<Rightarrow>
          (if merge \<and> truthy old
           then spread2 (entries v) (map (\<lambda>(k, v). (k, JStr v)) newMappings)
           else map (\<lambda>(k, v). (k, JStr v)) newMappings)
      | None \<Rightarrow> map (\<lambda>(k, v). (k, JStr v)) newMappings)"

definition apply_mappings :: "PathMapping \<Rightarrow> json \<Rightarrow> bool \<Rightarrow> js_error + json" where
  "apply_mappings newMappings config merge =
     (case config of
        JNull \<Rightarrow> Inl (TypeError ''Cannot read properties of null (reading compilerOptions)'')
      | JArr xs \<Rightarrow> Inr (JArr xs)
      | JObj ps \<Rightarrow>
          (case map_of (ensure_compilerOptions ps) ''compilerOptions'' of
             Some (JObj cps) \<Rightarrow>
               Inr (JObj (obj_set ''compilerOptions''
                            (JObj (obj_set ''paths''
                                     (JObj (updated_paths newMappings merge (map_of cps ''paths'')))
                                     cps))
                            (ensure_compilerOptions ps)))
           | Some (JArr cs) \<Rightarrow> Inr (JObj (ensure_compilerOptions ps))
           | _ \<Rightarrow> Inl (TypeError ''Cannot create property paths on a primitive value''))
      | _ \<Rightarrow> Inl (TypeError ''Cannot create property compilerOptions on a primitive value''))"

text \<open>
  A failure inside the \<^verbatim>\<open>try\<close> block is rethrown as
  \<^verbatim>\<open>Error(`Failed to update tsconfig.json: ${error}`)\<close>. The result is the document
  written to \<open>configPath\<close>.
\<close>

definition update_failed :: "js_error \<Rightarrow> js_error + json" where
  "update_failed e = Inl (Error (''Failed to update tsconfig.json: '' @ error_string e))"

definition updateTsConfig ::
    "Host \<Rightarrow> FileSystem \<Rightarrow> string \<Rightarrow> PathMapping \<Rightarrow> string option \<Rightarrow> bool \<Rightarrow> js_error + json" where
  "updateTsConfig H F rootDir newMappings tsConfigPath merge =
     (let configPath = config_path H rootDir tsConfigPath
      in case (if pathExists F configPath then readTsConfig F configPath
               else Inr default_config) of
           Inl e \<Rightarrow> update_failed e
         | Inr config \<Rightarrow>
             (case apply_mappings newMappings config merge of
                Inl e \<Rightarrow> update_failed e
              | Inr config' \<Rightarrow>
                  (case writeTsConfig F configPath config' of
                     Inl e \<Rightarrow> update_failed e
                   | Inr written \<Rightarrow> Inr written)))"

text \<open>
  A configuration document: an object whose \<^verbatim>\<open>compilerOptions\<close>, when present, is
  an object, or a falsy value, which the code replaces by an empty object.
\<close>

definition is_config_document :: "json \<Rightarrow> bool" where
  "is_config_document config =
     (case config of
        JObj ps \<Rightarrow>
          (case map_of ps ''compilerOptions'' of
             None \<Rightarrow> True
           | Some (JObj cps) \<Rightarrow> True
           | Some v \<Rightarrow> \<not> truthy (Some v))
      | _ \<Rightarrow> False)"

text \<open>The node \<^verbatim>\<open>compilerOptions.paths\<close> of a document.\<close>

definition paths_node :: "json \<Rightarrow> json option" where
  "paths_node config =
     (case get_prop ''compilerOptions'' config of
        Some co \<Rightarrow> get_prop ''paths'' co
      | None \<Rightarrow> None)"

section \<open>A reference host and sample projects\<close>

text \<open>
  For evaluating the model on examples: Node's POSIX \<^verbatim>\<open>path\<close> functions, with
  \<open>resolve\<close> on an absolute first argument and \<open>relative\<close> on resolved paths, and the
  root collation of \<^verbatim>\<open>localeCompare\<close> on strings of ASCII letters and digits, which
  compares two strings without regard to case first and, when that decides nothing, puts
  the lower-case letter first at the first difference.
\<close>

definition posix_isAbsolute :: "string \<Rightarrow> bool" where
  "posix_isAbsolute p \<longleftrightarrow> p \<noteq> [] \<and> hd p = CHR ''/''"

fun join_with :: "char \<Rightarrow> string list \<Rightarrow> string" where
  "join_with c [] = []"
| "join_with c [s] = s"
| "join_with c (s # ss) = s @ c # join_with c ss"

text \<open>
  Empty and \<^verbatim>\<open>.\<close> segments are dropped and \<^verbatim>\<open>..\<close> removes the segment before it,
  if there is one; \<open>acc\<close> holds the segments kept so far, last first.
\<close>

fun normalize_segments :: "string list \<Rightarrow> string list \<Rightarrow> string list" where
  "normalize_segments acc [] = rev acc"
| "normalize_segments acc (s # ss) =
     (if s = [] \<or> s = ''.'' then normalize_segments acc ss
      else if s = ''..'' then normalize_segments (tl acc) ss
      else normalize_segments (s # acc) ss)"

definition posix_resolve :: "string \<Rightarrow> string \<Rightarrow> string" where
  "posix_resolve a b =
     (let full = (if posix_isAbsolute b then b else a @ ''/'' @ b)
      in CHR ''/'' # join_with CHR ''/'' (normalize_segments [] (split_on CHR ''/'' full)))"

fun drop_common :: "'a list \<Rightarrow> 'a list \<Rightarrow> 'a list \<times> 'a list" where
  "drop_common (x # xs) (y # ys) = (if x = y then drop_common xs ys else (x # xs, y # ys))"
| "drop_common xs ys = (xs, ys)"

definition posix_relative :: "string \<Rightarrow> string \<Rightarrow> string" where
  "posix_relative from to =
     (case drop_common (filter (\<lambda>s. s \<noteq> []) (split_on CHR ''/'' from))
                       (filter (\<lambda>s. s \<noteq> []) (split_on CHR ''/'' to)) of
        (up, down) \<Rightarrow> join_with CHR ''/'' (replicate (length up) ''..'' @ down))"

definition posix_basename :: "string \<Rightarrow> string" where
  "posix_basename p =
     rev (takeWhile (\<lambda>c. c \<noteq> CHR ''/'') (dropWhile (\<lambda>c. c = CHR ''/'') (rev p)))"

definition posix_parse :: "string \<Rightarrow> ParsedPath" where
  "posix_parse p =
     (let base = posix_basename p;
          e = rev (takeWhile (\<lambda>c. c \<noteq> CHR ''.'') (rev base))
      in if CHR ''.'' \<notin> set base \<or> length e + 1 = length base \<or> base = ''..''
         then \<lparr>name = base, ext = []\<rparr>
         else \<lparr>name = take (length base - length e - 1) base, ext = CHR ''.'' # e\<rparr>)"

definition posix_join :: "string \<Rightarrow> string \<Rightarrow> string" where
  "posix_join a b = a @ ''/'' @ b"

definition is_upper :: "char \<Rightarrow> bool" where
  "is_upper c \<longleftrightarrow> CHR ''A'' \<le> c \<and> c \<le> CHR ''Z''"

definition collation_key :: "string \<Rightarrow> string \<times> bool list" where
  "collation_key s = (map toLowerCase s, map is_upper s)"

definition root_collation :: "string \<Rightarrow> string \<Rightarrow> int" where
  "root_collation a b =
     (if collation_key a < collation_key b then - 1
      else if collation_key a = collation_key b then 0 else 1)"

text \<open>The host with the working directory \<^verbatim>\<open>/test/project\<close>.\<close>

definition posix_host :: Host where
  "posix_host =
     \<lparr>sep = CHR ''/'', cwd = Inr ''/test/project'', isAbsolute = posix_isAbsolute,
      resolve = posix_resolve, relative = posix_relative, parse = posix_parse,
      basename = posix_basename, join = posix_join, localeCompare = root_collation\<rparr>"

text \<open>What \<^verbatim>\<open>process.cwd()\<close> throws when the working directory has been removed.\<close>

definition cwd_gone :: js_error where
  "cwd_gone = Error ''ENOENT: no such file or directory, uv_cwd''"

text \<open>The conflict of the test suite: a file and a directory under one alias.\<close>

definition utils_file :: DiscoveredPath where
  "utils_file = \<lparr>alias = ''utils'', path = ''/test/project/src/utils/index.ts'',
     relativePath = ''src/utils/index.ts'', type = File, depth = 2\<rparr>"

definition utils_dir :: DiscoveredPath where
  "utils_dir = \<lparr>alias = ''utils'', path = ''/test/project/src/utils'',
     relativePath = ''src/utils'', type = Directory, depth = 1\<rparr>"

text \<open>Two files under one alias whose relative paths have the same length.\<close>

definition index_a :: DiscoveredPath where
  "index_a = \<lparr>alias = ''index'', path = ''/test/project/src/a/index.ts'',
     relativePath = ''src/a/index.ts'', type = File, depth = 2\<rparr>"

definition index_b :: DiscoveredPath where
  "index_b = \<lparr>alias = ''index'', path = ''/test/project/src/b/index.ts'',
     relativePath = ''src/b/index.ts'', type = File, depth = 2\<rparr>"

text \<open>
  A project \<^verbatim>\<open>/test/project\<close> with two source files and the directories
  \<^verbatim>\<open>src\<close>, \<^verbatim>\<open>src/utils\<close>; the file \<^verbatim>\<open>src/utils.ts\<close> and the directory
  \<^verbatim>\<open>src/utils\<close> derive the same alias. Its \<^verbatim>\<open>tsconfig.json\<close> maps \<^verbatim>\<open>@utils\<close> to
  an absolute path, for which discovery knows a shorter one.
\<close>

definition sample_config :: json where
  "sample_config =
     JObj [(''compilerOptions'',
            JObj [(''strict'', JBool True),
                  (''paths'', JObj [(''@src'', JStr ''src''),
                                   (''@utils'', JStr ''/test/project/src/utils'')])])]"

definition sample_fs :: FileSystem where
  "sample_fs =
     \<lparr>getTypeScriptFiles =
        Inr [''/test/project/src/components/Button.tsx'', ''/test/project/src/utils.ts''],
      getDirectoryStructure = [''/test/project/src'', ''/test/project/src/utils''],
      access = (\<lambda>p. p = ''/test/project/tsconfig.json''),
      existsSync = (\<lambda>p. p \<in> set [''/test/project/src'', ''/test/project/src/utils'',
                                   ''/test/project/src/utils.ts'']),
      readJson = (\<lambda>p. if p = ''/test/project/tsconfig.json'' then Inr sample_config
                       else Inl (Error ''ENOENT: no such file or directory'')),
      writeFile = (\<lambda>p config. None)\<rparr>"

definition sample_discovered :: "DiscoveredPath list" where
  "sample_discovered =
     [\<lparr>alias = ''src'', path = ''/test/project/src'', relativePath = ''src'',
        type = Directory, depth = 0\<rparr>,
      \<lparr>alias = ''utils'', path = ''/test/project/src/utils.ts'',
        relativePath = ''src/utils.ts'', type = File, depth = 1\<rparr>,
      \<lparr>alias = ''utils'', path = ''/test/project/src/utils'', relativePath = ''src/utils'',
        type = Directory, depth = 1\<rparr>,
      \<lparr>alias = ''button'', path = ''/test/project/src/components/Button.tsx'',
        relativePath = ''src/components/Button.tsx'', type = File, depth = 2\<rparr>]"

definition sample_result :: PathMapperResult where
  "sample_result =
     \<lparr>mappings = [(''@src'', ''src''), (''@utils'', ''src/utils.ts''),
                  (''@button'', ''src/components/Button.tsx'')],
      discovered = sample_discovered,
      suggestions = [],
      warnings = [''Alias conflict resolved: utils -> utils for src/utils.ts''],
      errors = []\<rparr>"

definition sample_mappings :: PathMapping where
  "sample_mappings = [(''@utils'', ''src/utils.ts''), (''@button'', ''src/components/Button.tsx'')]"

definition sample_merged :: json where
  "sample_merged =
     JObj [(''compilerOptions'',
            JObj [(''strict'', JBool True),
                  (''paths'', JObj [(''@src'', JStr ''src''),
                                   (''@utils'', JStr ''src/utils.ts''),
                                   (''@button'', JStr ''src/components/Button.tsx'')])])]"

text \<open>A project with two top-level directories and no configuration file.\<close>

definition assets_fs :: FileSystem where
  "assets_fs =
     \<lparr>getTypeScriptFiles = Inr [],
      getDirectoryStructure = [''/test/project/Components'', ''/test/project/assets''],
      access = (\<lambda>p. False),
      existsSync = (\<lambda>p. p \<in> set [''/test/project/Components'', ''/test/project/assets'']),
      readJson = (\<lambda>p. Inl (Error ''ENOENT: no such file or directory'')),
      writeFile = (\<lambda>p config. None)\<rparr>"

definition assets_dir :: DiscoveredPath where
  "assets_dir = \<lparr>alias = ''assets'', path = ''/test/project/assets'',
     relativePath = ''assets'', type = Directory, depth = 0\<rparr>"

definition components_dir :: DiscoveredPath where
  "components_dir = \<lparr>alias = ''Components'', path = ''/test/project/Components'',
     relativePath = ''Components'', type = Directory, depth = 0\<rparr>"

section \<open>Conflict resolution\<close>

lemma reduce1_shorter_mem: "reduce1 shorter acc xs \<in> set (acc # xs)"
  by (induction xs arbitrary: acc) (auto simp: shorter_def)

lemma reduce1_snoc: "reduce1 f acc (xs @ [x]) = f (reduce1 f acc xs) x"
  by (induction xs arbitrary: acc) simp_all

lemma reduce1_shorter_split:
  "\<exists>pre w post. acc # xs = pre @ w # post \<and> reduce1 shorter acc xs = w \<and>
     (\<forall>x\<in>set pre. length (relativePath w) < length (relativePath x)) \<and>
     (\<forall>x\<in>set post. length (relativePath w) \<le> length (relativePath x))"
proof (induction xs rule: rev_induct)
  case Nil
  have "[acc] = [] @ acc # []" by simp
  then show ?case by fastforce
next
  case (snoc x xs)
  then obtain pre w post where
    split: "acc # xs = pre @ w # post" and win: "reduce1 shorter acc xs = w"
    and before: "\<forall>x\<in>set pre. length (relativePath w) < length (relativePath x)"
    and after: "\<forall>x\<in>set post. length (relativePath w) \<le> length (relativePath x)"
    by blast
  show ?case
  proof (cases "length (relativePath x) < length (relativePath w)")
    case True
    have "acc # xs @ [x] = (pre @ w # post) @ x # []" using split by simp
    moreover have "reduce1 shorter acc (xs @ [x]) = x"
      using True win by (simp add: reduce1_snoc shorter_def)
    moreover have "\<forall>y\<in>set (pre @ w # post). length (relativePath x) < length (relativePath y)"
      using True before after by fastforce
    ultimately show ?thesis by (metis empty_iff set_empty2)
  next
    case False
    have "acc # xs @ [x] = pre @ w # (post @ [x])" using split by simp
    moreover have "reduce1 shorter acc (xs @ [x]) = w"
      using False win by (simp add: reduce1_snoc shorter_def)
    moreover have "\<forall>y\<in>set (post @ [x]). length (relativePath w) \<le> length (relativePath y)"
      using False after by auto
    ultimately show ?thesis using before by blast
  qed
qed

lemma filter_split_lift:
  "filter P items = pre' @ w # post' \<Longrightarrow>
   \<exists>pre post. items = pre @ w # post \<and> filter P pre = pre' \<and> filter P post = post'"
proof (induction items arbitrary: pre')
  case Nil
  then show ?case by simp
next
  case (Cons i items)
  show ?case
  proof (cases "P i")
    case False
    with Cons.prems have "filter P items = pre' @ w # post'" by simp
    from Cons.IH[OF this] obtain pre post where
      "items = pre @ w # post" "filter P pre = pre'" "filter P post = post'" by blast
    then have "i # items = (i # pre) @ w # post \<and> filter P (i # pre) = pre' \<and> filter P post = post'"
      using False by simp
    then show ?thesis by blast
  next
    case True
    show ?thesis
    proof (cases pre')
      case Nil
      with True Cons.prems have "i = w" "filter P items = post'" by simp_all
      then have "i # items = [] @ w # items \<and> filter P [] = pre' \<and> filter P items = post'"
        using Nil by simp
      then show ?thesis by blast
    next
      case (Cons p ps)
      with True Cons.prems have "i = p" and rest: "filter P items = ps @ w # post'" by simp_all
      from Cons.IH[OF rest] obtain pre post where
        "items = pre @ w # post" "filter P pre = ps" "filter P post = post'" by blast
      then have "i # items = (i # pre) @ w # post \<and> filter P (i # pre) = pre' \<and> filter P post = post'"
        using True Cons \<open>i = p\<close> by simp
      then show ?thesis by blast
    qed
  qed
qed

lemma winner_of_kind:
  assumes "filter (\<lambda>i. type i = k) items = f # fs"
  shows "\<exists>pre w post. items = pre @ w # post \<and> reduce1 shorter f fs = w \<and> type w = k \<and>
           (\<forall>x\<in>set pre. type x = k \<longrightarrow> length (relativePath w) < length (relativePath x)) \<and>
           (\<forall>x\<in>set post. type x = k \<longrightarrow> length (relativePath w) \<le> length (relativePath x))"
proof -
  obtain pre' w post' where
    split: "f # fs = pre' @ w # post'" and win: "reduce1 shorter f fs = w"
    and before: "\<forall>x\<in>set pre'. length (relativePath w) < length (relativePath x)"
    and after: "\<forall>x\<in>set post'. length (relativePath w) \<le> length (relativePath x)"
    using reduce1_shorter_split[of f fs] by blast
  from assms split have "filter (\<lambda>i. type i = k) items = pre' @ w # post'" by simp
  from filter_split_lift[OF this] obtain pre post where
    items: "items = pre @ w # post"
    and pre: "filter (\<lambda>i. type i = k) pre = pre'"
    and post: "filter (\<lambda>i. type i = k) post = post'" by blast
  have "w \<in> set (filter (\<lambda>i. type i = k) items)" using assms split by simp
  then have kind: "type w = k" by simp
  have "\<forall>x\<in>set pre. type x = k \<longrightarrow> length (relativePath w) < length (relativePath x)"
    using before pre by auto
  moreover have "\<forall>x\<in>set post. type x = k \<longrightarrow> length (relativePath w) \<le> length (relativePath x)"
    using after post by auto
  ultimately show ?thesis using items win kind by blast
qed

lemma no_file_all_directories:
  "filter (\<lambda>i. type i = File) items = [] \<Longrightarrow> filter (\<lambda>i. type i = Directory) items = items"
proof (induction items)
  case Nil
  then show ?case by simp
next
  case (Cons i items)
  then show ?case by (cases "type i") (simp_all split: if_splits)
qed

lemma resolveAliasConflict_member:
  assumes "items \<noteq> []"
  shows "\<exists>w\<in>set items. resolveAliasConflict a items = Inr (alias w, relativePath w)"
proof (cases "filter (\<lambda>i. type i = File) items")
  case Nil
  then have "filter (\<lambda>i. type i = Directory) items = items"
    by (rule no_file_all_directories)
  with assms obtain d ds where dirs: "filter (\<lambda>i. type i = Directory) items = d # ds"
    by (cases items) auto
  have "reduce1 shorter d ds \<in> set (d # ds)" by (rule reduce1_shorter_mem)
  then have "reduce1 shorter d ds \<in> set (filter (\<lambda>i. type i = Directory) items)"
    using dirs by simp
  then have "reduce1 shorter d ds \<in> set items" by simp
  then show ?thesis using Nil dirs by (auto simp: resolveAliasConflict_def Let_def)
next
  case (Cons f fs)
  have "reduce1 shorter f fs \<in> set (f # fs)" by (rule reduce1_shorter_mem)
  then have "reduce1 shorter f fs \<in> set (filter (\<lambda>i. type i = File) items)"
    using Cons by simp
  then have "reduce1 shorter f fs \<in> set items" by simp
  then show ?thesis using Cons by (auto simp: resolveAliasConflict_def Let_def)
qed

lemma resolve_file_over_directory:
  "resolveAliasConflict ''utils'' [utils_dir, utils_file] = Inr (''utils'', ''src/utils/index.ts'')"
  by (simp add: resolveAliasConflict_def utils_dir_def utils_file_def)

lemma resolve_tie_first:
  "resolveAliasConflict ''index'' [index_b, index_a] = Inr (''index'', ''src/b/index.ts'')"
  "resolveAliasConflict ''index'' [index_a, index_b] = Inr (''index'', ''src/a/index.ts'')"
  by (simp_all add: resolveAliasConflict_def index_a_def index_b_def shorter_def)

lemma resolve_shared_alias:
  assumes "items \<noteq> []" and "\<forall>i\<in>set items. alias i = a"
  shows "\<exists>p. resolveAliasConflict a items = Inr (a, p)"
  using resolveAliasConflict_member[OF assms(1), of a] assms(2) by auto

text \<open>
  Claim C1. For a non-empty group of records, in particular a group of two or more that
  share an alias, \<open>resolveAliasConflict\<close> returns the alias and \<open>relativePath\<close> of a record
  \<open>w\<close> of the group such that: \<open>w\<close> is a file when the group contains a file, and a
  directory otherwise; no record of the kind of \<open>w\<close> has a shorter \<open>relativePath\<close>; and
  every record of that kind that occurs before \<open>w\<close> in the group has a strictly longer
  \<open>relativePath\<close>, so that among records of equal minimal length the first one wins.
\<close>

theorem resolveAliasConflict_winner:
  assumes "items \<noteq> []"
  shows "\<exists>pre w post. items = pre @ w # post \<and>
           resolveAliasConflict a items = Inr (alias w, relativePath w) \<and>
           type w = (if \<exists>x\<in>set items. type x = File then File else Directory) \<and>
           (\<forall>x\<in>set pre. type x = type w \<longrightarrow>
              length (relativePath w) < length (relativePath x)) \<and>
           (\<forall>x\<in>set post. type x = type w \<longrightarrow>
              length (relativePath w) \<le> length (relativePath x))"
proof (cases "filter (\<lambda>i. type i = File) items")
  case Nil
  then have nofile: "\<not> (\<exists>x\<in>set items. type x = File)"
    by (simp add: filter_empty_conv)
  from Nil have "filter (\<lambda>i. type i = Directory) items = items"
    by (rule no_file_all_directories)
  with assms obtain d ds where dirs: "filter (\<lambda>i. type i = Directory) items = d # ds"
    by (cases items) auto
  from winner_of_kind[OF dirs] obtain pre w post where
    "items = pre @ w # post" "reduce1 shorter d ds = w" "type w = Directory"
    "\<forall>x\<in>set pre. type x = Directory \<longrightarrow> length (relativePath w) < length (relativePath x)"
    "\<forall>x\<in>set post. type x = Directory \<longrightarrow> length (relativePath w) \<le> length (relativePath x)"
    by blast
  moreover from this have "resolveAliasConflict a items = Inr (alias w, relativePath w)"
    using Nil dirs by (simp add: resolveAliasConflict_def)
  ultimately show ?thesis using nofile by (metis (no_types, lifting))
next
  case (Cons f fs)
  then have "f \<in> set (filter (\<lambda>i. type i = File) items)" by simp
  then have somefile: "\<exists>x\<in>set items. type x = File" by auto
  from winner_of_kind[OF Cons] obtain pre w post where
    "items = pre @ w # post" "reduce1 shorter f fs = w" "type w = File"
    "\<forall>x\<in>set pre. type x = File \<longrightarrow> length (relativePath w) < length (relativePath x)"
    "\<forall>x\<in>set post. type x = File \<longrightarrow> length (relativePath w) \<le> length (relativePath x)"
    by blast
  moreover from this have "resolveAliasConflict a items = Inr (alias w, relativePath w)"
    using Cons by (simp add: resolveAliasConflict_def)
  ultimately show ?thesis using somefile by (metis (no_types, lifting))
qed

theorem resolveAliasConflict_winner_witness:
  "[utils_dir, utils_file] \<noteq> [] \<and>
   resolveAliasConflict ''utils'' [utils_dir, utils_file] = Inr (''utils'', ''src/utils/index.ts'') \<and>
   (\<exists>pre w post. [utils_dir, utils_file] = pre @ w # post \<and>
      resolveAliasConflict ''utils'' [utils_dir, utils_file] = Inr (alias w, relativePath w) \<and>
      type w = (if \<exists>x\<in>set [utils_dir, utils_file]. type x = File then File else Directory) \<and>
      (\<forall>x\<in>set pre. type x = type w \<longrightarrow>
         length (relativePath w) < length (relativePath x)) \<and>
      (\<forall>x\<in>set post. type x = type w \<longrightarrow>
         length (relativePath w) \<le> length (relativePath x)))"
  using resolveAliasConflict_winner[of "[utils_dir, utils_file]" "''utils''"]
    resolve_file_over_directory
  by simp

text \<open>
  Claim C10. For a non-empty group of records that all have the alias \<open>a\<close>, the alias
  returned by \<open>resolveAliasConflict\<close> is \<open>a\<close>: the alias named as the winner in a
  conflict warning is the contested alias itself.
\<close>

theorem resolveAliasConflict_keeps_alias:
  assumes "items \<noteq> []" and "\<forall>i\<in>set items. alias i = a"
  shows "\<exists>p. resolveAliasConflict a items = Inr (a, p)"
  using assms by (rule resolve_shared_alias)

theorem resolveAliasConflict_keeps_alias_witness:
  "[utils_file, utils_dir] \<noteq> [] \<and> alias utils_file = ''utils'' \<and> alias utils_dir = ''utils'' \<and>
   (\<exists>p. resolveAliasConflict ''utils'' [utils_file, utils_dir] = Inr (''utils'', p))"
  using resolveAliasConflict_keeps_alias[of "[utils_file, utils_dir]" "''utils''"]
  by (simp add: utils_file_def utils_dir_def)

section \<open>Alias derivation\<close>

lemma path_resolve_failure: "path_resolve H p = Inl e \<Longrightarrow> cwd H = Inl e \<and> \<not> isAbsolute H p"
  by (auto simp: path_resolve_def split: if_splits sum.splits)

lemma path_resolve_absolute: "isAbsolute H p \<Longrightarrow> path_resolve H p = Inr (resolve H p [])"
  by (simp add: path_resolve_def)

lemma path_resolve_cwd: "cwd H = Inr d \<Longrightarrow> \<exists>q. path_resolve H p = Inr q"
  by (simp add: path_resolve_def)

lemma path_relative_failure:
  "path_relative H from to = Inl e \<Longrightarrow>
   cwd H = Inl e \<and> from \<noteq> to \<and> \<not> (isAbsolute H from \<and> isAbsolute H to)"
  by (auto simp: path_relative_def split: if_splits sum.splits dest: path_resolve_failure)

lemma path_relative_returns:
  "from = to \<or> (isAbsolute H from \<and> isAbsolute H to) \<or> (\<exists>d. cwd H = Inr d) \<Longrightarrow>
   \<exists>r. path_relative H from to = Inr r"
  by (cases "path_relative H from to") (auto dest: path_relative_failure)

lemma path_relative_no_cwd:
  "from = to \<or> (isAbsolute H from \<and> isAbsolute H to) \<Longrightarrow>
   path_relative (H\<lparr>cwd := w\<rparr>) from to = path_relative H from to"
  by (auto simp: path_relative_def path_resolve_def)

lemma generateAlias_relative:
  "generateAlias H filePath rootDir =
     (case path_relative H rootDir filePath of
        Inl e \<Rightarrow> Inl e
      | Inr relPath \<Rightarrow>
          Inr (let a1 = (if ext (parse H relPath) = [] then basename H filePath
                         else lower_first (replace_space_word []
                                (replace_non_alnum (name (parse H relPath)))))
               in if \<not> starts_with_letter a1 then CHR ''p'' # a1 else a1))"
  by (simp add: generateAlias_def Let_def split: sum.splits)

lemma prefixed_starts_with_letter:
  "\<exists>c cs. (if \<not> starts_with_letter a then CHR ''p'' # a else a) = c # cs \<and> is_letter c"
proof (cases a)
  case Nil
  then show ?thesis by (simp add: is_letter_def)
next
  case (Cons c cs)
  then show ?thesis by (simp add: is_letter_def)
qed

text \<open>
  Claim C3, as stated: for every path string and root string \<open>generateAlias\<close> returns,
  without raising an exception, a string that is a function of the two. It fails for
  relative arguments: when the working directory cannot be read the call throws, and the
  alias of the path \<^verbatim>\<open>.\<close> below the root \<^verbatim>\<open>/test/project\<close> is \<^verbatim>\<open>my\<close> in the working
  directory \<^verbatim>\<open>/test/project/my.dir\<close> and \<^verbatim>\<open>p.\<close> in \<^verbatim>\<open>/test/project/src\<close>.
\<close>

theorem generateAlias_cwd_counterexample:
  "generateAlias (posix_host\<lparr>cwd := Inl cwd_gone\<rparr>) ''src/utils.ts'' ''src'' = Inl cwd_gone \<and>
   generateAlias (posix_host\<lparr>cwd := Inr ''/test/project/my.dir''\<rparr>) ''.'' ''/test/project'' =
     Inr ''my'' \<and>
   generateAlias (posix_host\<lparr>cwd := Inr ''/test/project/src''\<rparr>) ''.'' ''/test/project'' =
     Inr ''p.''"
  by code_simp

text \<open>
  Claim C3, amended. For every path string and root string: every alias that
  \<open>generateAlias\<close> returns is a non-empty string whose first character is an ASCII
  letter; the only exception it raises is the failure of \<^verbatim>\<open>process.cwd()\<close>; it returns
  whenever the path equals the root, both are absolute, or the working directory can be
  read; and when the path equals the root or both are absolute, the result does not
  depend on the working directory.
\<close>

theorem generateAlias_starts_with_letter:
  "(\<forall>a. generateAlias H filePath rootDir = Inr a \<longrightarrow> (\<exists>c cs. a = c # cs \<and> is_letter c)) \<and>
   (\<forall>e. generateAlias H filePath rootDir = Inl e \<longrightarrow> cwd H = Inl e) \<and>
   (filePath = rootDir \<or> (isAbsolute H rootDir \<and> isAbsolute H filePath) \<or> (\<exists>d. cwd H = Inr d) \<longrightarrow>
      (\<exists>a. generateAlias H filePath rootDir = Inr a)) \<and>
   (filePath = rootDir \<or> (isAbsolute H rootDir \<and> isAbsolute H filePath) \<longrightarrow>
      generateAlias (H\<lparr>cwd := w\<rparr>) filePath rootDir = generateAlias H filePath rootDir)"
proof (intro conjI allI impI)
  fix a assume "generateAlias H filePath rootDir = Inr a"
  then show "\<exists>c cs. a = c # cs \<and> is_letter c"
    using prefixed_starts_with_letter
    by (auto simp: generateAlias_relative Let_def split: sum.splits)
next
  fix e assume "generateAlias H filePath rootDir = Inl e"
  then have "path_relative H rootDir filePath = Inl e"
    by (auto simp: generateAlias_relative split: sum.splits)
  then show "cwd H = Inl e" by (auto dest: path_relative_failure)
next
  assume "filePath = rootDir \<or> (isAbsolute H rootDir \<and> isAbsolute H filePath) \<or> (\<exists>d. cwd H = Inr d)"
  then have "\<exists>r. path_relative H rootDir filePath = Inr r"
    by (intro path_relative_returns) auto
  then show "\<exists>a. generateAlias H filePath rootDir = Inr a"
    by (auto simp: generateAlias_relative)
next
  assume "filePath = rootDir \<or> (isAbsolute H rootDir \<and> isAbsolute H filePath)"
  then have "path_relative (H\<lparr>cwd := w\<rparr>) rootDir filePath = path_relative H rootDir filePath"
    by (intro path_relative_no_cwd) auto
  then show "generateAlias (H\<lparr>cwd := w\<rparr>) filePath rootDir = generateAlias H filePath rootDir"
    by (simp add: generateAlias_relative split: sum.splits)
qed

theorem generateAlias_starts_with_letter_witness:
  "isAbsolute posix_host ''/test/project'' \<and> isAbsolute posix_host ''/test/project/src/123.ts'' \<and>
   generateAlias posix_host ''/test/project/src/123.ts'' ''/test/project'' = Inr ''p123'' \<and>
   is_letter CHR ''p'' \<and>
   generateAlias (posix_host\<lparr>cwd := Inl cwd_gone\<rparr>) ''/test/project/src/123.ts'' ''/test/project'' =
     Inr ''p123'' \<and>
   generateAlias posix_host ''/test/project/src/components/Button.tsx'' ''/test/project'' =
     Inr ''button''"
proof -
  have abs: "isAbsolute posix_host ''/test/project''"
    "isAbsolute posix_host ''/test/project/src/123.ts''"
    by (simp_all add: posix_host_def posix_isAbsolute_def)
  have val: "generateAlias posix_host ''/test/project/src/123.ts'' ''/test/project'' = Inr ''p123''"
    by code_simp
  have button:
    "generateAlias posix_host ''/test/project/src/components/Button.tsx'' ''/test/project'' =
       Inr ''button''"
    by code_simp
  from generateAlias_starts_with_letter
         [of posix_host "''/test/project/src/123.ts''" "''/test/project''" "Inl cwd_gone"]
       abs val button
  show ?thesis by (auto simp: is_letter_def)
qed

section \<open>Discovery order\<close>

lemma set_insert_sorted: "set (insert_sorted cmp x ys) = insert x (set ys)"
  by (induction ys) auto

lemma set_array_sort: "set (array_sort cmp xs) = set xs"
  unfolding array_sort_def by (induction xs) (simp_all add: set_insert_sorted)

lemma length_insert_sorted: "length (insert_sorted cmp x ys) = Suc (length ys)"
  by (induction ys) auto

lemma length_array_sort: "length (array_sort cmp xs) = length xs"
  unfolding array_sort_def by (induction xs) (simp_all add: length_insert_sorted)

lemma sorted_insert_sorted:
  assumes total: "\<And>a b. cmp a b \<le> 0 \<or> cmp b a \<le> 0"
    and trans: "\<And>a b c. cmp a b \<le> 0 \<Longrightarrow> cmp b c \<le> 0 \<Longrightarrow> cmp a c \<le> 0"
    and sorted: "sorted_wrt (\<lambda>a b. cmp a b \<le> 0) ys"
  shows "sorted_wrt (\<lambda>a b. cmp a b \<le> 0) (insert_sorted cmp x ys)"
  using sorted
proof (induction ys)
  case Nil
  then show ?case by simp
next
  case (Cons y ys)
  show ?case
  proof (cases "cmp x y \<le> 0")
    case True
    then have "\<forall>z\<in>set ys. cmp x z \<le> 0" using Cons.prems trans by auto
    with True Cons.prems show ?thesis by simp
  next
    case False
    then have "cmp y x \<le> 0" using total by blast
    with False Cons show ?thesis by (auto simp: set_insert_sorted)
  qed
qed

lemma sorted_array_sort:
  assumes total: "\<And>a b. cmp a b \<le> 0 \<or> cmp b a \<le> 0"
    and trans: "\<And>a b c. cmp a b \<le> 0 \<Longrightarrow> cmp b c \<le> 0 \<Longrightarrow> cmp a c \<le> 0"
  shows "sorted_wrt (\<lambda>a b. cmp a b \<le> 0) (array_sort cmp xs)"
  unfolding array_sort_def
  by (induction xs) (simp_all add: sorted_insert_sorted[OF total trans])

lemma compare_discovered_le:
  "compare_discovered H a b \<le> 0 \<longleftrightarrow>
     depth a < depth b \<or> (depth a = depth b \<and> localeCompare H (alias a) (alias b) \<le> 0)"
  by (auto simp: compare_discovered_def)

lemma consistent_total:
  assumes "consistent_comparator cmp"
  shows "cmp a b \<le> 0 \<or> cmp b a \<le> 0"
proof (rule ccontr)
  assume "\<not> (cmp a b \<le> 0 \<or> cmp b a \<le> 0)"
  then have "sgn (cmp a b) = 1" "sgn (cmp b a) = 1" by simp_all
  moreover have "sgn (cmp b a) = - sgn (cmp a b)"
    using assms unfolding consistent_comparator_def by blast
  ultimately show False by simp
qed

lemma consistent_trans:
  assumes "consistent_comparator cmp" "cmp a b \<le> 0" "cmp b c \<le> 0"
  shows "cmp a c \<le> 0"
  using assms unfolding consistent_comparator_def by blast

lemma consistent_by_key:
  fixes key :: "'a \<Rightarrow> 'k::linorder"
  assumes "\<And>a b. cmp a b = (if key a < key b then - 1 else if key a = key b then 0 else 1)"
  shows "consistent_comparator cmp"
  unfolding consistent_comparator_def by (auto simp: assms)

lemma consistent_root_collation: "consistent_comparator root_collation"
  by (rule consistent_by_key[where key = collation_key]) (simp add: root_collation_def)

lemma discover_assets:
  "discoverPaths posix_host assets_fs ''/test/project'' = Inr [assets_dir, components_dir]"
  by code_simp

lemma discover_sample:
  "discoverPaths posix_host sample_fs ''/test/project'' = Inr sample_discovered"
  by code_simp

text \<open>
  Claim C4, as stated: adjacent records of the output are ordered by depth and, at equal
  depth, lexicographically by alias. It fails for two top-level directories
  \<^verbatim>\<open>Components\<close> and \<^verbatim>\<open>assets\<close>: \<^verbatim>\<open>localeCompare\<close> puts \<^verbatim>\<open>assets\<close> first,
  while \<^verbatim>\<open>Components\<close> is lexicographically smaller.
\<close>

theorem discoverPaths_alias_order_counterexample:
  "discoverPaths posix_host assets_fs ''/test/project'' = Inr [assets_dir, components_dir] \<and>
   \<not> depth_then_alias_lex assets_dir components_dir"
  using discover_assets by (simp add: depth_then_alias_lex_def assets_dir_def components_dir_def)

text \<open>
  Claim C4, amended. When \<^verbatim>\<open>localeCompare\<close> is a consistent comparison function, adjacent
  records \<open>r1\<close> before \<open>r2\<close> of the output of \<open>discoverPaths\<close> satisfy: the depth of \<open>r1\<close>
  is less than that of \<open>r2\<close>, or the depths are equal and
  \<^verbatim>\<open>r1.alias.localeCompare(r2.alias)\<close> is not positive.
\<close>

theorem discoverPaths_sorted:
  assumes "consistent_comparator (localeCompare H)"
      and "discoverPaths H F rootDir = Inr out"
      and "Suc i < length out"
  shows "depth (out ! i) < depth (out ! Suc i) \<or>
         (depth (out ! i) = depth (out ! Suc i) \<and>
          localeCompare H (alias (out ! i)) (alias (out ! Suc i)) \<le> 0)"
proof -
  let ?cmp = "compare_discovered H"
  have total: "?cmp a b \<le> 0 \<or> ?cmp b a \<le> 0" for a b
    using consistent_total[OF assms(1), of "alias a" "alias b"]
    by (auto simp: compare_discovered_le)
  have trans: "?cmp a c \<le> 0" if "?cmp a b \<le> 0" "?cmp b c \<le> 0" for a b c
    using that consistent_trans[OF assms(1), of "alias a" "alias b" "alias c"]
    by (auto simp: compare_discovered_le)
  obtain xs where "out = array_sort ?cmp xs"
    using assms(2) by (auto simp: discoverPaths_def discover_failed_def Let_def split: sum.splits)
  then have "sorted_wrt (\<lambda>a b. ?cmp a b \<le> 0) out"
    using sorted_array_sort[of ?cmp xs] total trans by blast
  then have "?cmp (out ! i) (out ! Suc i) \<le> 0"
    using assms(3) sorted_wrt_nth_less[of "\<lambda>a b. ?cmp a b \<le> 0" out i "Suc i"] by simp
  then show ?thesis by (simp add: compare_discovered_le)
qed

theorem discoverPaths_sorted_witness:
  "consistent_comparator (localeCompare posix_host) \<and>
   discoverPaths posix_host assets_fs ''/test/project'' = Inr [assets_dir, components_dir] \<and>
   Suc 0 < length [assets_dir, components_dir] \<and>
   depth assets_dir = depth components_dir \<and>
   localeCompare posix_host (alias assets_dir) (alias components_dir) \<le> 0"
proof -
  have c: "consistent_comparator (localeCompare posix_host)"
    using consistent_root_collation by (simp add: posix_host_def)
  have d: "depth assets_dir = depth components_dir"
    by (simp add: assets_dir_def components_dir_def)
  have l: "Suc 0 < length [assets_dir, components_dir]" by simp
  from discoverPaths_sorted[OF c discover_assets l] d c discover_assets
  show ?thesis by simp
qed

section \<open>Objects\<close>

lemma key_before_asym: "key_before a b \<Longrightarrow> \<not> key_before b a"
  by (auto simp: key_before_def split: option.splits)

lemma key_before_trans: "key_before a b \<Longrightarrow> key_before b c \<Longrightarrow> key_before a c"
  by (auto simp: key_before_def split: option.splits)

lemma keys_obj_set: "fst ` set (obj_set k v ps) = insert k (fst ` set ps)"
proof (induction ps)
  case Nil
  then show ?case by simp
next
  case (Cons p ps)
  obtain k' v' where p: "p = (k', v')" by (cases p)
  consider "k = k'" | "k \<noteq> k'" "key_before k k'" | "k \<noteq> k'" "\<not> key_before k k'"
    by blast
  then show ?case
  proof cases
    case 1
    with p show ?thesis by simp
  next
    case 2
    with p show ?thesis by simp
  next
    case 3
    with p Cons.IH show ?thesis by (simp add: insert_commute)
  qed
qed

lemma map_of_obj_set:
  "map_of (obj_set k v ps) k' = (if k' = k then Some v else map_of ps k')"
  by (induction ps) auto

lemma obj_set_twice: "obj_set k v (obj_set k v' ps) = obj_set k v ps"
  by (induction ps) auto

lemma wf_obj_Cons:
  "wf_obj ((k, v) # ps) \<longleftrightarrow>
     (\<forall>q\<in>set ps. k \<noteq> fst q \<and> \<not> key_before (fst q) k) \<and> wf_obj ps"
  by (simp add: wf_obj_def)

lemma wf_obj_Nil: "wf_obj []"
  by (simp add: wf_obj_def)

lemma wf_obj_set: "wf_obj ps \<Longrightarrow> wf_obj (obj_set k v ps)"
proof (induction ps)
  case Nil
  then show ?case by (simp add: wf_obj_def)
next
  case (Cons p ps)
  obtain k' v' where p: "p = (k', v')" by (cases p)
  from Cons.prems p have later: "\<forall>q\<in>set ps. k' \<noteq> fst q \<and> \<not> key_before (fst q) k'"
    and tail: "wf_obj ps" by (simp_all add: wf_obj_Cons)
  show ?case
  proof (cases "k = k'")
    case True
    with later tail p show ?thesis by (simp add: wf_obj_Cons)
  next
    case False
    show ?thesis
    proof (cases "key_before k k'")
      case True
      have "\<forall>q\<in>set ps. k \<noteq> fst q \<and> \<not> key_before (fst q) k"
        using later True key_before_trans by blast
      with True False later tail p show ?thesis
        by (auto simp: wf_obj_Cons dest: key_before_asym)
    next
      case nb: False
      have "\<forall>q\<in>set (obj_set k v ps). k' \<noteq> fst q \<and> \<not> key_before (fst q) k'"
      proof
        fix q assume "q \<in> set (obj_set k v ps)"
        then have "fst q \<in> insert k (fst ` set ps)"
          using keys_obj_set[of k v ps] by (metis imageI)
        then show "k' \<noteq> fst q \<and> \<not> key_before (fst q) k'"
          using later False nb by auto
      qed
      with False nb p Cons.IH[OF tail] show ?thesis by (simp add: wf_obj_Cons)
    qed
  qed
qed

lemma wf_assign_all: "wf_obj acc \<Longrightarrow> wf_obj (assign_all acc xs)"
  unfolding assign_all_def
  by (induction xs arbitrary: acc) (auto simp: wf_obj_set)

lemma obj_set_append:
  "\<forall>q\<in>set acc. fst q \<noteq> k \<and> \<not> key_before k (fst q) \<Longrightarrow> obj_set k v acc = acc @ [(k, v)]"
  by (induction acc) auto

lemma wf_obj_append:
  "wf_obj (xs @ ys) \<longleftrightarrow>
     wf_obj xs \<and> wf_obj ys \<and> (\<forall>p\<in>set xs. \<forall>q\<in>set ys. fst p \<noteq> fst q \<and> \<not> key_before (fst q) (fst p))"
  by (simp add: wf_obj_def sorted_wrt_append)

lemma assign_all_wf: "wf_obj (acc @ xs) \<Longrightarrow> assign_all acc xs = acc @ xs"
proof (induction xs arbitrary: acc)
  case Nil
  then show ?case by (simp add: assign_all_def)
next
  case (Cons x xs)
  obtain k v where x: "x = (k, v)" by (cases x)
  from Cons.prems x have "\<forall>q\<in>set acc. fst q \<noteq> k \<and> \<not> key_before k (fst q)"
    by (auto simp: wf_obj_append)
  then have step: "obj_set k v acc = acc @ [(k, v)]" by (rule obj_set_append)
  from Cons.prems x have "wf_obj ((acc @ [(k, v)]) @ xs)" by simp
  from Cons.IH[OF this] step x show ?case by (simp add: assign_all_def)
qed

lemma obj_set_same: "wf_obj ps \<Longrightarrow> map_of ps k = Some v \<Longrightarrow> obj_set k v ps = ps"
proof (induction ps)
  case Nil
  then show ?case by simp
next
  case (Cons p ps)
  obtain k' v' where p: "p = (k', v')" by (cases p)
  show ?case
  proof (cases "k = k'")
    case True
    with Cons.prems p show ?thesis by simp
  next
    case False
    with Cons.prems p have look: "map_of ps k = Some v" by simp
    then have "k \<in> fst ` set ps" by (metis map_of_eq_None_iff option.distinct(1))
    with Cons.prems(1) p have "\<not> key_before k k'" by (auto simp: wf_obj_Cons)
    moreover from Cons.prems(1) p have "wf_obj ps" by (simp add: wf_obj_Cons)
    ultimately show ?thesis using False p Cons.IH look by simp
  qed
qed

lemma assign_all_same:
  "wf_obj m \<Longrightarrow> \<forall>(k, v)\<in>set xs. map_of m k = Some v \<Longrightarrow> assign_all m xs = m"
  unfolding assign_all_def
  by (induction xs) (auto simp: obj_set_same)

lemma map_of_assign_all_other:
  "k \<notin> fst ` set xs \<Longrightarrow> map_of (assign_all m xs) k = map_of m k"
  unfolding assign_all_def
  by (induction xs arbitrary: m) (auto simp: map_of_obj_set)

lemma map_of_assign_all:
  "distinct (map fst xs) \<Longrightarrow> (k, v) \<in> set xs \<Longrightarrow> map_of (assign_all m xs) k = Some v"
proof (induction xs arbitrary: m)
  case Nil
  then show ?case by simp
next
  case (Cons x xs)
  obtain k0 v0 where x: "x = (k0, v0)" by (cases x)
  have unfold: "assign_all m (x # xs) = assign_all (obj_set k0 v0 m) xs"
    using x by (simp add: assign_all_def)
  show ?case
  proof (cases "(k, v) \<in> set xs")
    case True
    with Cons show ?thesis unfolding unfold by simp
  next
    case False
    with Cons.prems x have "k = k0" "v = v0" "k \<notin> fst ` set xs" by auto
    then show ?thesis unfolding unfold
      by (simp add: map_of_assign_all_other map_of_obj_set)
  qed
qed

lemma wf_obj_distinct: "wf_obj ps \<Longrightarrow> distinct (map fst ps)"
proof (induction ps)
  case Nil
  then show ?case by simp
next
  case (Cons p ps)
  obtain k v where p: "p = (k, v)" by (cases p)
  from Cons.prems p have "\<forall>q\<in>set ps. k \<noteq> fst q" and "wf_obj ps"
    by (simp_all add: wf_obj_Cons)
  then show ?case using Cons.IH p by auto
qed

lemma wf_obj_map_values: "wf_obj (map (\<lambda>(k, v). (k, f v)) ps) = wf_obj ps"
  by (simp add: wf_obj_def sorted_wrt_map case_prod_beta)

lemma spread2_idem:
  assumes "wf_obj t"
  shows "spread2 (spread2 p t) t = spread2 p t"
proof -
  let ?m = "spread2 p t"
  have wf: "wf_obj ?m" unfolding spread2_def by (simp add: wf_assign_all wf_obj_Nil)
  then have copy: "assign_all [] ?m = ?m" using assign_all_wf[of "[]" ?m] by simp
  have "\<forall>(k, v)\<in>set t. map_of ?m k = Some v"
    unfolding spread2_def using map_of_assign_all[OF wf_obj_distinct[OF assms]] by auto
  then have "assign_all ?m t = ?m" using wf by (rule assign_all_same[rotated])
  with copy show ?thesis by (simp add: spread2_def)
qed

lemma spread2_self:
  assumes "wf_obj t"
  shows "spread2 t t = t"
proof -
  have copy: "assign_all [] t = t" using assign_all_wf[of "[]" t] assms by simp
  have "\<forall>(k, v)\<in>set t. map_of t k = Some v"
    using wf_obj_distinct[OF assms] by auto
  then have "assign_all t t = t" using assms by (rule assign_all_same[rotated])
  with copy show ?thesis by (simp add: spread2_def)
qed

section \<open>Mapping generation\<close>

lemma groups_push_keys:
  "fst ` set (groups_push item gs) = insert (alias item) (fst ` set gs)"
proof (induction gs)
  case Nil
  then show ?case by simp
next
  case (Cons g gs)
  obtain k items where g: "g = (k, items)" by (cases g)
  show ?case
  proof (cases "k = alias item")
    case True
    with g show ?thesis by simp
  next
    case False
    with g Cons.IH show ?thesis by (simp add: insert_commute)
  qed
qed

lemma groups_push_ok: "groups_ok gs \<Longrightarrow> groups_ok (groups_push item gs)"
proof (induction gs)
  case Nil
  then show ?case by (simp add: groups_ok_def)
next
  case (Cons g gs)
  obtain k items where g: "g = (k, items)" by (cases g)
  from Cons.prems have tail: "groups_ok gs" by (simp add: groups_ok_def)
  show ?case
  proof (cases "k = alias item")
    case True
    with g Cons.prems show ?thesis by (auto simp: groups_ok_def)
  next
    case False
    with g Cons.prems Cons.IH[OF tail] show ?thesis by (auto simp: groups_ok_def)
  qed
qed

lemma fold_groups_push:
  "groups_ok gs \<Longrightarrow>
   groups_ok (fold groups_push ds gs) \<and>
   fst ` set (fold groups_push ds gs) = alias ` set ds \<union> fst ` set gs"
proof (induction ds arbitrary: gs)
  case Nil
  then show ?case by simp
next
  case (Cons d ds)
  from Cons.IH[OF groups_push_ok[OF Cons.prems], of d] show ?case
    by (simp add: groups_push_keys)
qed

lemma aliasGroups_ok: "groups_ok (aliasGroups ds)"
  and aliasGroups_keys: "fst ` set (aliasGroups ds) = alias ` set ds"
  using fold_groups_push[of "[]" ds] by (simp_all add: aliasGroups_def groups_ok_def)

lemma array_index_at: "array_index (CHR ''@'' # a) = None"
  by (simp add: array_index_def is_digit_def)

lemma key_before_at: "\<not> key_before (CHR ''@'' # a) k"
  by (simp add: key_before_def array_index_at)

lemma keys_obj_set_at:
  "map fst (obj_set (CHR ''@'' # a) v ps) =
     (if CHR ''@'' # a \<in> set (map fst ps) then map fst ps else map fst ps @ [CHR ''@'' # a])"
proof (induction ps)
  case Nil
  then show ?case by simp
next
  case (Cons p ps)
  obtain k' v' where p: "p = (k', v')" by (cases p)
  show ?case
  proof (cases "CHR ''@'' # a = k'")
    case True
    with p show ?thesis by simp
  next
    case False
    with p Cons.IH show ?thesis by (simp add: key_before_at)
  qed
qed

lemma distinct_obj_set_at:
  "distinct (map fst ps) \<Longrightarrow> distinct (map fst (obj_set (CHR ''@'' # a) v ps))"
  by (simp add: keys_obj_set_at)

lemma set_keys_obj_set_at:
  "set (map fst (obj_set (CHR ''@'' # a) v ps)) = insert (CHR ''@'' # a) (set (map fst ps))"
  by (auto simp: keys_obj_set_at)

lemma process_groups_keys:
  assumes "groups_ok gs"
  shows "\<exists>r'. process_groups gs r = Inr r' \<and> discovered r' = discovered r \<and>
           set (map fst (mappings r')) =
             set (map fst (mappings r)) \<union> (\<lambda>a. CHR ''@'' # a) ` fst ` set gs \<and>
           (distinct (map fst (mappings r)) \<longrightarrow> distinct (map fst (mappings r')))"
  using assms
proof (induction gs arbitrary: r)
  case Nil
  then show ?case by simp
next
  case (Cons g gs)
  obtain a items where g: "g = (a, items)" by (cases g)
  from Cons.prems g have items: "items \<noteq> []" "\<forall>i\<in>set items. alias i = a"
    and tail: "groups_ok gs" by (auto simp: groups_ok_def)
  have "\<exists>v s w. process_groups (g # gs) r =
          process_groups gs
            (r\<lparr>mappings := obj_set (CHR ''@'' # a) v (mappings r),
               suggestions := s, warnings := w\<rparr>)"
  proof (cases "\<exists>item. items = [item]")
    case True
    then obtain item where "items = [item]" by blast
    with g have "process_groups (g # gs) r =
          process_groups gs
            (r\<lparr>mappings := obj_set (CHR ''@'' # a) (relativePath item) (mappings r),
               suggestions :=
                 (if depth item > 2
                  then suggestions r @
                    [''Consider using a shorter alias for deep path: '' @ relativePath item]
                  else suggestions r),
               warnings := warnings r\<rparr>)"
      by simp
    then show ?thesis by blast
  next
    case False
    then have nonsingle: "(case items of [item] \<Rightarrow> f item | _ \<Rightarrow> d) = d"
      for f and d :: "js_error + PathMapperResult"
      by (cases items) (auto split: list.splits)
    from resolve_shared_alias[OF items] obtain p where
      "resolveAliasConflict a items = Inr (a, p)" by blast
    with g have "process_groups (g # gs) r =
          process_groups gs
            (r\<lparr>mappings := obj_set (CHR ''@'' # a) p (mappings r),
               suggestions := suggestions r,
               warnings := warnings r @
                 [''Alias conflict resolved: '' @ a @ '' -> '' @ a @ '' for '' @ p]\<rparr>)"
      by (simp add: nonsingle)
    then show ?thesis by blast
  qed
  then obtain v s w where step0: "process_groups (g # gs) r =
          process_groups gs
            (r\<lparr>mappings := obj_set (CHR ''@'' # a) v (mappings r),
               suggestions := s, warnings := w\<rparr>)" by blast
  define r1 where "r1 = r\<lparr>mappings := obj_set (CHR ''@'' # a) v (mappings r),
               suggestions := s, warnings := w\<rparr>"
  have step: "process_groups (g # gs) r = process_groups gs r1"
    and d1: "discovered r1 = discovered r"
    and m1: "mappings r1 = obj_set (CHR ''@'' # a) v (mappings r)"
    using step0 by (simp_all add: r1_def)
  from Cons.IH[OF tail, of r1] obtain r' where
    res: "process_groups gs r1 = Inr r'" and d': "discovered r' = discovered r1"
    and keys: "set (map fst (mappings r')) =
             set (map fst (mappings r1)) \<union> (\<lambda>a. CHR ''@'' # a) ` fst ` set gs"
    and dist: "distinct (map fst (mappings r1)) \<longrightarrow> distinct (map fst (mappings r'))"
    by blast
  have "set (map fst (mappings r')) =
             set (map fst (mappings r)) \<union> (\<lambda>a. CHR ''@'' # a) ` fst ` set (g # gs)"
    using keys g unfolding m1 set_keys_obj_set_at by auto
  moreover have "distinct (map fst (mappings r)) \<longrightarrow> distinct (map fst (mappings r'))"
    using dist unfolding m1 by (simp add: distinct_obj_set_at)
  ultimately show ?case using step res d' d1 by simp
qed

lemma process_groups_errors:
  "process_groups gs r = Inr r' \<Longrightarrow> errors r' = errors r"
proof (induction gs arbitrary: r)
  case Nil
  then show ?case by simp
next
  case (Cons g gs)
  obtain a items where g: "g = (a, items)" by (cases g)
  show ?case
  proof (cases "\<exists>item. items = [item]")
    case True
    then obtain item where "items = [item]" by blast
    with Cons.prems g show ?thesis by (auto dest!: Cons.IH)
  next
    case False
    then have nonsingle: "(case items of [item] \<Rightarrow> f item | _ \<Rightarrow> d) = d" for f and d :: "js_error + PathMapperResult"
      by (cases items) (auto split: list.splits)
    from Cons.prems g show ?thesis
      by (auto simp: nonsingle split: sum.splits prod.splits dest!: Cons.IH)
  qed
qed

lemma generate_sample:
  "generateMappings posix_host sample_fs ''/test/project'' = Inr sample_result"
  by code_simp

text \<open>
  Claim C2. When discovery returns the set \<open>ds\<close>, \<open>generateMappings\<close> returns a result
  whose mappings table has distinct keys, namely the strings \<^verbatim>\<open>@\<close> followed by an alias
  of \<open>ds\<close>: one entry for each distinct alias, none dropped and no other key.
\<close>

theorem generateMappings_keys:
  assumes "discoverPaths H F rootDir = Inr ds"
  shows "\<exists>r. generateMappings H F rootDir = Inr r \<and> discovered r = ds \<and>
           distinct (map fst (mappings r)) \<and>
           set (map fst (mappings r)) = (\<lambda>a. CHR ''@'' # a) ` alias ` set ds \<and>
           length (mappings r) = card (alias ` set ds)"
proof -
  let ?r0 = "\<lparr>mappings = [], discovered = ds, suggestions = [], warnings = [], errors = []\<rparr>"
  from process_groups_keys[OF aliasGroups_ok, of ds ?r0] obtain r where
    res: "process_groups (aliasGroups ds) ?r0 = Inr r" and d: "discovered r = ds"
    and keys: "set (map fst (mappings r)) = (\<lambda>a. CHR ''@'' # a) ` alias ` set ds"
    and dist: "distinct (map fst (mappings r))"
    by (auto simp: aliasGroups_keys)
  have "length (mappings r) = card (set (map fst (mappings r)))"
    using dist distinct_card[of "map fst (mappings r)"] by simp
  also have "\<dots> = card (alias ` set ds)"
    unfolding keys by (rule card_image) (simp add: inj_on_def)
  finally have "length (mappings r) = card (alias ` set ds)" .
  with res d keys dist assms show ?thesis by (simp add: generateMappings_def)
qed

theorem generateMappings_keys_witness:
  "discoverPaths posix_host sample_fs ''/test/project'' = Inr sample_discovered \<and>
   (\<exists>r. generateMappings posix_host sample_fs ''/test/project'' = Inr r \<and>
      discovered r = sample_discovered \<and>
      distinct (map fst (mappings r)) \<and>
      set (map fst (mappings r)) = (\<lambda>a. CHR ''@'' # a) ` alias ` set sample_discovered \<and>
      length (mappings r) = card (alias ` set sample_discovered))"
  using generateMappings_keys[OF discover_sample] discover_sample by simp

text \<open>
  Claim C9. Every result of \<open>generateMappings\<close> has an empty \<open>errors\<close> list.
\<close>

theorem generateMappings_errors_empty:
  "generateMappings H F rootDir = Inr r \<Longrightarrow> errors r = []"
  by (auto simp: generateMappings_def split: sum.splits dest!: process_groups_errors)

theorem generateMappings_errors_empty_witness:
  "generateMappings posix_host sample_fs ''/test/project'' = Inr sample_result \<and>
   errors sample_result = []"
  using generateMappings_errors_empty[OF generate_sample] generate_sample by simp

section \<open>Validation\<close>

lemma validate_sample:
  "validateExistingMappings posix_host sample_fs ''/test/project'' None =
     \<lparr>isValid = True,
      issues = [\<lparr>issue_type = info, message = ''Consider using shorter path: src/utils'',
                 issue_path = Some ''/test/project/src/utils'',
                 suggestion = Some ''src/utils''\<rparr>]\<rparr>"
  by code_simp

text \<open>
  Claim C5. The \<open>isValid\<close> flag of a validation result is true if and only if no issue
  of the result has severity \<open>error\<close>; issues of severity \<open>info\<close> or \<open>warning\<close> do not
  count.
\<close>

theorem validate_isValid_iff:
  "isValid (validateExistingMappings H F rootDir tsConfigPath) \<longleftrightarrow>
   (\<forall>i\<in>set (issues (validateExistingMappings H F rootDir tsConfigPath)). issue_type i \<noteq> error)"
  by (auto simp: validateExistingMappings_def validation_failed_def Let_def filter_empty_conv
      split: sum.splits json.splits prod.splits option.splits)

theorem validate_isValid_iff_witness:
  "isValid (validateExistingMappings posix_host sample_fs ''/test/project'' None) \<and>
   map issue_type (issues (validateExistingMappings posix_host sample_fs ''/test/project'' None)) =
     [info]"
  using validate_isValid_iff[of posix_host sample_fs "''/test/project''" None]
  by (simp add: validate_sample)

text \<open>
  Claim C8. When the configuration file does not exist, the validation result has
  \<open>isValid = False\<close> and exactly one issue, of severity \<open>error\<close>, which reports the
  missing file.
\<close>

theorem validate_missing_config:
  "\<not> pathExists F (config_path H rootDir tsConfigPath) \<Longrightarrow>
   validateExistingMappings H F rootDir tsConfigPath =
     \<lparr>isValid = False,
      issues = [\<lparr>issue_type = error, message = ''tsconfig.json not found'',
                 issue_path = Some (config_path H rootDir tsConfigPath), suggestion = None\<rparr>]\<rparr>"
  by (simp add: validateExistingMappings_def)

theorem validate_missing_config_witness:
  "\<not> pathExists assets_fs (config_path posix_host ''/test/project'' None) \<and>
   validateExistingMappings posix_host assets_fs ''/test/project'' None =
     \<lparr>isValid = False,
      issues = [\<lparr>issue_type = error, message = ''tsconfig.json not found'',
                 issue_path = Some ''/test/project/tsconfig.json'', suggestion = None\<rparr>]\<rparr>"
proof -
  have missing: "\<not> pathExists assets_fs (config_path posix_host ''/test/project'' None)"
    by (simp add: pathExists_def assets_fs_def)
  have "config_path posix_host ''/test/project'' None = ''/test/project/tsconfig.json''"
    by (simp add: config_path_def posix_host_def posix_join_def)
  with validate_missing_config[OF missing] missing show ?thesis by simp
qed

section \<open>Updating the configuration\<close>

lemma map_of_ensure_compilerOptions:
  "truthy (map_of (ensure_compilerOptions ps) ''compilerOptions'')"
  by (simp add: ensure_compilerOptions_def map_of_obj_set)

lemma ensure_compilerOptions_truthy:
  "truthy (map_of ps ''compilerOptions'') \<Longrightarrow> ensure_compilerOptions ps = ps"
  by (simp add: ensure_compilerOptions_def)

lemma updated_paths_cases:
  "updated_paths newMappings merge old = map (\<lambda>(k, v). (k, JStr v)) newMappings \<or>
   (\<exists>v. updated_paths newMappings merge old =
      spread2 (entries v) (map (\<lambda>(k, v). (k, JStr v)) newMappings))"
  by (auto simp: updated_paths_def split: option.splits)

lemma updated_paths_fixed:
  assumes "wf_obj newMappings"
  shows "updated_paths newMappings True
           (Some (JObj (updated_paths newMappings True old))) =
         updated_paths newMappings True old"
proof -
  let ?t = "map (\<lambda>(k, v). (k, JStr v)) newMappings"
  have wf: "wf_obj ?t" using assms by (simp add: wf_obj_map_values)
  have "spread2 (updated_paths newMappings True old) ?t = updated_paths newMappings True old"
    using updated_paths_cases[of newMappings True old] spread2_idem[OF wf] spread2_self[OF wf]
    by auto
  then show ?thesis by (simp add: updated_paths_def)
qed

text \<open>
  The document that \<open>updateTsConfig\<close> writes is \<open>apply_mappings\<close> of the document read,
  or of the default configuration when the file does not exist; the default
  configuration is a configuration document.
\<close>

lemma updateTsConfig_written:
  assumes "updateTsConfig H F rootDir newMappings tsConfigPath merge = Inr written"
  shows "\<exists>config.
           (if pathExists F (config_path H rootDir tsConfigPath)
            then readTsConfig F (config_path H rootDir tsConfigPath)
            else Inr default_config) = Inr config \<and>
           apply_mappings newMappings config merge = Inr written"
  using assms
  by (auto simp: updateTsConfig_def update_failed_def writeTsConfig_def Let_def
      split: sum.splits option.splits if_splits)

lemma default_config_document: "is_config_document default_config"
  by (simp add: is_config_document_def default_config_def)

lemma apply_sample:
  "apply_mappings sample_mappings sample_config True = Inr sample_merged"
  by code_simp

text \<open>
  Claim C6. For every alias table \<open>T\<close> (the property list of an object) and every
  document \<open>D\<close>: when applying \<open>T\<close> to \<open>D\<close> with \<open>merge = True\<close> yields the document \<open>D'\<close>,
  applying \<open>T\<close> to \<open>D'\<close> with \<open>merge = True\<close> yields \<open>D'\<close> again.
\<close>

theorem apply_mappings_merge_idempotent:
  assumes "wf_obj newMappings" and "apply_mappings newMappings config True = Inr config'"
  shows "apply_mappings newMappings config' True = Inr config'"
proof (cases config)
  case (JArr xs)
  with assms(2) show ?thesis by (auto simp: apply_mappings_def)
next
  case (JObj ps)
  let ?ps1 = "ensure_compilerOptions ps"
  from map_of_ensure_compilerOptions[of ps]
  obtain co where co: "map_of ?ps1 ''compilerOptions'' = Some co"
    by (cases "map_of ?ps1 ''compilerOptions''") auto
  show ?thesis
  proof (cases co)
    case (JArr cs)
    with co assms(2) JObj have c': "config' = JObj ?ps1" by (simp add: apply_mappings_def)
    have "ensure_compilerOptions ?ps1 = ?ps1"
      using co JArr by (simp add: ensure_compilerOptions_truthy)
    with co JArr show ?thesis unfolding c' by (simp add: apply_mappings_def)
  next
    case inner: (JObj cps)
    let ?new = "updated_paths newMappings True (map_of cps ''paths'')"
    let ?cps' = "obj_set ''paths'' (JObj ?new) cps"
    let ?ps' = "obj_set ''compilerOptions'' (JObj ?cps') ?ps1"
    from co inner assms(2) JObj have c': "config' = JObj ?ps'"
      by (simp add: apply_mappings_def)
    have ens: "ensure_compilerOptions ?ps' = ?ps'"
      by (simp add: ensure_compilerOptions_truthy map_of_obj_set)
    have look: "map_of ?ps' ''compilerOptions'' = Some (JObj ?cps')"
      by (simp add: map_of_obj_set)
    have old: "map_of ?cps' ''paths'' = Some (JObj ?new)"
      by (simp add: map_of_obj_set)
    show ?thesis
      unfolding c' apply_mappings_def
      by (simp add: ens look old updated_paths_fixed[OF assms(1)] obj_set_twice)
  qed (use co assms(2) JObj in \<open>simp_all add: apply_mappings_def\<close>)
qed (use assms(2) in \<open>simp_all add: apply_mappings_def\<close>)

theorem apply_mappings_merge_idempotent_witness:
  "wf_obj sample_mappings \<and>
   apply_mappings sample_mappings sample_config True = Inr sample_merged \<and>
   apply_mappings sample_mappings sample_merged True = Inr sample_merged"
proof -
  have wf: "wf_obj sample_mappings" by code_simp
  from apply_mappings_merge_idempotent[OF wf apply_sample] wf apply_sample
  show ?thesis by simp
qed

text \<open>
  Claim C7. For every alias table \<open>T\<close> and every configuration document \<open>D\<close>, applying
  \<open>T\<close> to \<open>D\<close> with \<open>merge = False\<close> yields a document whose node
  \<^verbatim>\<open>compilerOptions.paths\<close> is \<open>T\<close>, whatever that node held before.
\<close>

theorem apply_mappings_replace:
  assumes "is_config_document config"
  shows "\<exists>config'. apply_mappings newMappings config False = Inr config' \<and>
           paths_node config' = Some (mapping_json newMappings)"
proof -
  from assms obtain ps where config: "config = JObj ps"
    by (cases config) (simp_all add: is_config_document_def)
  have "\<exists>cps. map_of (ensure_compilerOptions ps) ''compilerOptions'' = Some (JObj cps)"
    using assms unfolding config ensure_compilerOptions_def is_config_document_def
    by (auto simp: map_of_obj_set split: option.splits json.splits)
  then obtain cps where co: "map_of (ensure_compilerOptions ps) ''compilerOptions'' = Some (JObj cps)"
    by blast
  have "updated_paths newMappings False old = map (\<lambda>(k, v). (k, JStr v)) newMappings" for old
    by (simp add: updated_paths_def split: option.splits)
  then show ?thesis
    unfolding config apply_mappings_def
    using co
    by (simp add: paths_node_def mapping_json_def map_of_obj_set)
qed

theorem apply_mappings_replace_witness:
  "is_config_document sample_config \<and>
   (\<exists>config'. apply_mappings sample_mappings sample_config False = Inr config' \<and>
      paths_node config' = Some (mapping_json sample_mappings))"
proof -
  have doc: "is_config_document sample_config" by code_simp
  from apply_mappings_replace[OF doc, of sample_mappings] doc show ?thesis by simp
qed

end
